theory Spec2Isabelle
  imports Complex_Main "HOL-Library.Multiset" "HOL-Library.Log_Nat"
begin

section \<open>Data model of the C-MAPSS pipeline (dataset/cmapss.py)\<close>

text \<open>
  Every Python exception the modelled functions can raise is a value of \<open>error\<close>; a
  function that can raise returns \<open>error + 'a\<close> with \<open>Inl\<close> for the exception.
\<close>

datatype error =
    Length_mismatch              \<comment> \<open>pandas: assigning an index of another length\<close>
  | Zero_division                \<comment> \<open>Python: integer division by zero\<close>
  | Index_out_of_range           \<comment> \<open>Python/numpy/pandas IndexError\<close>
  | Need_at_least_one_array      \<comment> \<open>np.concatenate of an empty sequence\<close>
  | Dimension_mismatch           \<comment> \<open>np.concatenate of arrays of different ndim\<close>
  | No_objects_to_concatenate    \<comment> \<open>pd.concat of an empty list\<close>
  | Negative_size                \<comment> \<open>np.random.choice with a negative size\<close>
  | Empty_population             \<comment> \<open>np.random.choice from nothing, size nonzero\<close>
  | Sample_larger_than_population \<comment> \<open>np.random.choice, replace=False\<close>
  | Stack_shape_mismatch         \<comment> \<open>np.stack of arrays of different shapes\<close>
  | Stack_empty                  \<comment> \<open>torch.stack of an empty list\<close>
  | Overflow_error               \<comment> \<open>Python: an integer too large for a float, int(inf)\<close>

text \<open>
  A float64 cell. Labels are integers until \<open>generate_rul\<close> normalises them; the only
  division of the pipeline can divide by zero, where numpy yields inf or nan and raises
  nothing. Finite values are kept exactly, as rationals.
\<close>

datatype fnum = Finite rat | NonFinite

text \<open>
  One line of a data frame: \<open>unit_nr\<close> is the engine id, \<open>time_cycles\<close> the cycle
  index, \<open>cols\<close> the setting and sensor columns by name. A data frame is the list of its
  lines in frame order. \<open>generate_rul\<close> adds the columns \<open>max_cycles\<close> and \<open>rul\<close>.
\<close>

record row =
  unit_nr :: int
  time_cycles :: int
  cols :: "string \<Rightarrow> rat"

record labeled = row +
  max_cycles :: int
  rul :: fnum

subsection \<open>groupby\<close>

text \<open>
  \<open>df.groupby(by="unit_nr")\<close>: the groups come in ascending key order, each group holds
  the lines of its key in frame order.
\<close>

definition unit_keys :: "('a row_scheme) list \<Rightarrow> int list" where
  "unit_keys df = sort (remdups (map unit_nr df))"

definition engine_rows :: "('a row_scheme) list \<Rightarrow> int \<Rightarrow> ('a row_scheme) list" where
  "engine_rows df k = filter (\<lambda>r. unit_nr r = k) df"

definition groupby :: "('a row_scheme) list \<Rightarrow> (int \<times> ('a row_scheme) list) list" where
  "groupby df = map (\<lambda>k. (k, engine_rows df k)) (unit_keys df)"

subsection \<open>generate_rul\<close>

text \<open>
  The columns \<open>time_cycles\<close>, \<open>max_cycles\<close> and \<open>rul\<close> and the remainders of \<open>y_test\<close>
  are int64 arrays: their values are integers from \<open>-2^63\<close> up to \<open>2^63 - 1\<close>, and numpy
  adds and subtracts them modulo \<open>2^64\<close> without raising. \<open>wrap64\<close> is that reduction,
  written at every such operation.
\<close>

definition wrap64 :: "int \<Rightarrow> int" where
  "wrap64 v = (v + 2 ^ 63) mod 2 ^ 64 - 2 ^ 63"

definition in_int64 :: "int \<Rightarrow> bool" where
  "in_int64 v = (- (2 ^ 63) \<le> v \<and> v < 2 ^ 63)"

text \<open>
  Lines 154-155: \<open>RUL_max = grouped["time_cycles"].max()\<close>, a series indexed by engine id.
\<close>

definition RUL_max :: "row list \<Rightarrow> (int \<times> int) list" where
  "RUL_max df = map (\<lambda>k. (k, Max (set (map time_cycles (engine_rows df k))))) (unit_keys df)"

text \<open>
  Lines 156-158: in test mode the frame \<open>y_test\<close> takes the index of \<open>RUL_max\<close> (pandas
  raises when the lengths differ) and its first column is added position by position.
\<close>

definition add_y_test :: "(int \<times> int) list \<Rightarrow> int list option \<Rightarrow> error + (int \<times> int) list" where
  "add_y_test mx y_test =
     (case y_test of
        None \<Rightarrow> Inr mx
      | Some ys \<Rightarrow>
          if length ys \<noteq> length mx then Inl Length_mismatch
          else Inr (map (\<lambda>((k, m), y). (k, wrap64 (m + y))) (zip mx ys)))"

text \<open>
  Line 165: \<open>(rul + 1) / max_cycles\<close> on two integer columns is float division.
\<close>

definition true_divide :: "int \<Rightarrow> int \<Rightarrow> fnum" where
  "true_divide a b = (if b = 0 then NonFinite else Finite (of_int a / of_int b))"

text \<open>
  Lines 160-165 on one line \<open>r\<close> of the merged frame, \<open>m\<close> being its \<open>max_cycles\<close>: the
  label, the clip of the label and the redefinition of \<open>max_cycles\<close> (both tests read the
  columns as they were before line 162), then the normalisation. \<open>threshold\<close> is a Python
  integer; it is stored only on a line whose label exceeds it, and \<open>threshold + 1\<close> only
  on a line whose \<open>max_cycles\<close> exceeds \<open>threshold\<close>, so what is stored is an int64 value.
\<close>

definition label_row :: "bool \<Rightarrow> int \<Rightarrow> row \<Rightarrow> int \<Rightarrow> labeled" where
  "label_row normalize_flag threshold r m =
     (let rul0 = wrap64 (m - time_cycles r);
          rul1 = (if threshold > 0 \<and> rul0 > threshold then threshold else rul0);
          m1 = (if threshold > 0 \<and> m > threshold then threshold + 1 else m)
      in \<lparr>unit_nr = unit_nr r, time_cycles = time_cycles r, cols = cols r,
          max_cycles = m1,
          rul = (if normalize_flag then true_divide (wrap64 (rul1 + 1)) m1
                 else Finite (of_int rul1))\<rparr>)"

text \<open>
  Line 159: \<open>pd.merge(df, RUL_max, on="unit_nr")\<close> is an inner join that keeps the order
  of the left frame; a line whose key is not in the right table is dropped.
\<close>

definition merge_label :: "bool \<Rightarrow> int \<Rightarrow> (int \<times> int) list \<Rightarrow> row list \<Rightarrow> labeled list" where
  "merge_label normalize_flag threshold mx df =
     concat (map (\<lambda>r. case map_of mx (unit_nr r) of
                          None \<Rightarrow> []
                        | Some m \<Rightarrow> [label_row normalize_flag threshold r m]) df)"

definition generate_rul :: "row list \<Rightarrow> int list option \<Rightarrow> bool \<Rightarrow> int \<Rightarrow> error + labeled list" where
  "generate_rul df y_test normalize_flag threshold =
     (case add_y_test (RUL_max df) y_test of
        Inl e \<Rightarrow> Inl e
      | Inr mx \<Rightarrow> Inr (merge_label normalize_flag threshold mx df))"

text \<open>
  The value the join gives the lines of engine \<open>k\<close> as \<open>max_cycles\<close>, read from the
  table; used to state what \<open>generate_rul\<close> computes.
\<close>

definition total_life :: "(int \<times> int) list \<Rightarrow> int \<Rightarrow> int" where
  "total_life mx k = (case map_of mx k of Some m \<Rightarrow> m | None \<Rightarrow> 0)"

text \<open>
  The inputs of \<open>generate_rul\<close> the labelling properties are about. In test mode the
  file of remainders has one line per engine, the \<open>j\<close>-th for the \<open>j\<close>-th engine id in
  ascending order (\<open>remainder_of\<close>; 0 in train mode). \<open>engine_life\<close> is the integer sum of
  an engine's largest cycle index and its remainder. \<open>no_overflow\<close> says that for every
  engine this sum, and its difference to every cycle index of the engine, are int64
  values, so that no operation of \<open>generate_rul\<close> wraps; \<open>life_fits\<close> says only that the
  sum stays below \<open>2^63\<close>.
\<close>

definition y_test_ok :: "row list \<Rightarrow> int list option \<Rightarrow> bool" where
  "y_test_ok df y_test =
     (case y_test of None \<Rightarrow> True | Some ys \<Rightarrow> length ys = length (unit_keys df))"

definition remainders_nonneg :: "int list option \<Rightarrow> bool" where
  "remainders_nonneg y_test =
     (case y_test of None \<Rightarrow> True | Some ys \<Rightarrow> list_all (\<lambda>y. 0 \<le> y) ys)"

definition remainder_of :: "int list option \<Rightarrow> nat \<Rightarrow> int" where
  "remainder_of y_test j = (case y_test of None \<Rightarrow> 0 | Some ys \<Rightarrow> ys ! j)"

definition engine_life :: "row list \<Rightarrow> int list option \<Rightarrow> nat \<Rightarrow> int" where
  "engine_life df y_test j =
     Max (set (map time_cycles (engine_rows df (unit_keys df ! j)))) + remainder_of y_test j"

definition no_overflow :: "row list \<Rightarrow> int list option \<Rightarrow> bool" where
  "no_overflow df y_test =
     list_all (\<lambda>j. in_int64 (engine_life df y_test j) \<and>
                   list_all (\<lambda>r. in_int64 (engine_life df y_test j - time_cycles r))
                     (engine_rows df (unit_keys df ! j)))
       [0 ..< length (unit_keys df)]"

definition life_fits :: "row list \<Rightarrow> int list option \<Rightarrow> bool" where
  "life_fits df y_test =
     list_all (\<lambda>j. engine_life df y_test j < 2 ^ 63) [0 ..< length (unit_keys df)]"

text \<open>
  A frame of two engines, of two and one cycles, and a frame of one engine of two cycles,
  for the concrete instances below.
\<close>

definition frame_example :: "row list" where
  "frame_example =
     [\<lparr>unit_nr = 1, time_cycles = 1, cols = (\<lambda>_. 0)\<rparr>,
      \<lparr>unit_nr = 1, time_cycles = 2, cols = (\<lambda>_. 0)\<rparr>,
      \<lparr>unit_nr = 2, time_cycles = 1, cols = (\<lambda>_. 0)\<rparr>]"

definition frame_two_cycles :: "row list" where
  "frame_two_cycles =
     [\<lparr>unit_nr = 1, time_cycles = 1, cols = (\<lambda>_. 0)\<rparr>,
      \<lparr>unit_nr = 1, time_cycles = 2, cols = (\<lambda>_. 0)\<rparr>]"

subsection \<open>generate_window_sample\<close>

text \<open>
  \<open>window_size\<close> is a length and is a natural number here (a negative \<open>window_size\<close> is
  outside the model); \<open>slide_step\<close> is any Python integer. \<open>sensors\<close> names columns the
  frame holds, so \<open>engine[sensors].values\<close> is a matrix with one line per line of the
  engine.
\<close>

definition sensor_values :: "string list \<Rightarrow> ('a row_scheme) list \<Rightarrow> rat list list" where
  "sensor_values sensors engine = map (\<lambda>r. map (cols r) sensors) engine"

text \<open>
  \<open>data[j:j + window_size]\<close> with \<open>j \<ge> 0\<close>: a slice is cut at the end of the array and
  never raises. \<open>series.iloc[k]\<close> with \<open>k \<ge> 0\<close> raises IndexError past the end.
\<close>

definition slice_from :: "'a list \<Rightarrow> nat \<Rightarrow> nat \<Rightarrow> 'a list" where
  "slice_from xs j w = take w (drop j xs)"

definition iloc :: "'a list \<Rightarrow> nat \<Rightarrow> error + 'a" where
  "iloc xs k = (if k < length xs then Inr (xs ! k) else Inl Index_out_of_range)"

text \<open>
  Lines 196-199, the body of the inner loop for one \<open>j\<close>: the window, its engine id and
  its label.
\<close>

definition window_at ::
  "rat list list \<Rightarrow> labeled list \<Rightarrow> nat \<Rightarrow> nat \<Rightarrow> error + (rat list list \<times> int \<times> fnum)" where
  "window_at data engine window_size j =
     (case iloc (map unit_nr engine) 0 of
        Inl e \<Rightarrow> Inl e
      | Inr u \<Rightarrow>
          (case iloc (map rul engine) (j + window_size) of
             Inl e \<Rightarrow> Inl e
           | Inr l \<Rightarrow> Inr (slice_from data j window_size, u, l)))"

text \<open>A \<open>for\<close> loop that fills a list slot by slot and stops at the first exception.\<close>

fun collect :: "(nat \<Rightarrow> error + 'a) \<Rightarrow> nat list \<Rightarrow> error + 'a list" where
  "collect f [] = Inr []"
| "collect f (j # js) =
     (case f j of
        Inl e \<Rightarrow> Inl e
      | Inr x \<Rightarrow> (case collect f js of Inl e \<Rightarrow> Inl e | Inr xs \<Rightarrow> Inr (x # xs)))"

text \<open>
  Lines 192-199 for one engine that is not shorter than the window: the three lists
  \<open>s\<close>, \<open>e\<close> and \<open>rul\<close>, each of \<open>(len - window_size) // slide_step\<close> slots (none when
  that number is negative).
\<close>

definition window_count :: "nat \<Rightarrow> int \<Rightarrow> nat \<Rightarrow> nat" where
  "window_count window_size slide_step len =
     nat ((int len - int window_size) div slide_step)"

definition engine_windows ::
  "string list \<Rightarrow> nat \<Rightarrow> int \<Rightarrow> labeled list
     \<Rightarrow> error + (rat list list list \<times> int list \<times> fnum list)" where
  "engine_windows sensors window_size slide_step engine =
     (let data = sensor_values sensors engine in
      if slide_step = 0 then Inl Zero_division
      else
        (case collect (window_at data engine window_size)
                [0 ..< window_count window_size slide_step (length data)] of
           Inl e \<Rightarrow> Inl e
         | Inr ts \<Rightarrow> Inr (map fst ts, map (fst \<circ> snd) ts, map (snd \<circ> snd) ts)))"

text \<open>
  The state of the outer loop: the warnings issued so far (engine id, its length, the
  window size) and the filled slots \<open>result[:i]\<close>, \<open>engine_ids[:i]\<close>, \<open>labels[:i]\<close>
  (the fields carry the prefix \<open>w_\<close>).
\<close>

record window_state =
  w_warned :: "(int \<times> nat \<times> nat) list"
  w_result :: "rat list list list list"
  w_engine_ids :: "int list list"
  w_labels :: "fnum list list"

fun engines_loop ::
  "string list \<Rightarrow> nat \<Rightarrow> int \<Rightarrow> (int \<times> labeled list) list \<Rightarrow> window_state
     \<Rightarrow> error + window_state" where
  "engines_loop sensors window_size slide_step [] st = Inr st"
| "engines_loop sensors window_size slide_step ((k, engine) # rest) st =
     (if length engine < window_size
      then engines_loop sensors window_size slide_step rest
             (st\<lparr>w_warned := w_warned st @ [(k, length engine, window_size)]\<rparr>)
      else
        (case engine_windows sensors window_size slide_step engine of
           Inl e \<Rightarrow> Inl e
         | Inr (s, e, rul_list) \<Rightarrow>
             engines_loop sensors window_size slide_step rest
               (st\<lparr>w_result := w_result st @ [s],
                   w_engine_ids := w_engine_ids st @ [e],
                   w_labels := w_labels st @ [rul_list]\<rparr>)))"

text \<open>
  \<open>np.concatenate\<close> raises on an empty sequence. Each element of \<open>result[:i]\<close> is a list
  of windows: numpy reads a list of \<open>n > 0\<close> windows as an array of three axes and the
  empty list as an array of one axis, and refuses to join arrays that differ in their
  number of axes. The elements of the other two sequences are flat lists.
\<close>

definition np_concatenate :: "'a list list \<Rightarrow> error + 'a list" where
  "np_concatenate parts =
     (if parts = [] then Inl Need_at_least_one_array else Inr (concat parts))"

definition np_concatenate_windows :: "'a list list \<Rightarrow> error + 'a list" where
  "np_concatenate_windows parts =
     (if parts = [] then Inl Need_at_least_one_array
      else if [] \<in> set parts \<and> list_ex (\<lambda>p. p \<noteq> []) parts then Inl Dimension_mismatch
      else Inr (concat parts))"

text \<open>
  The whole function returns the three arrays; the warnings it issued are kept as a
  fourth component.
\<close>

definition generate_window_sample ::
  "labeled list \<Rightarrow> nat \<Rightarrow> int \<Rightarrow> string list
     \<Rightarrow> error + (rat list list list \<times> int list \<times> fnum list \<times> (int \<times> nat \<times> nat) list)" where
  "generate_window_sample df window_size slide_step sensors =
     (case engines_loop sensors window_size slide_step (groupby df)
             \<lparr>w_warned = [], w_result = [], w_engine_ids = [], w_labels = []\<rparr> of
        Inl e \<Rightarrow> Inl e
      | Inr st \<Rightarrow>
          (case np_concatenate_windows (w_result st) of
             Inl e \<Rightarrow> Inl e
           | Inr d \<Rightarrow>
               (case np_concatenate (w_engine_ids st) of
                  Inl e \<Rightarrow> Inl e
                | Inr i \<Rightarrow>
                    (case np_concatenate (w_labels st) of
                       Inl e \<Rightarrow> Inl e
                     | Inr l \<Rightarrow> Inr (d, i, l, w_warned st)))))"

text \<open>
  For the statements below: the number of windows the engines of a list of groups
  contribute, an engine shorter than the window contributing none.
\<close>

definition emitted :: "nat \<Rightarrow> int \<Rightarrow> (int \<times> labeled list) list \<Rightarrow> nat" where
  "emitted window_size slide_step gs =
     sum_list (map (\<lambda>(k, e). if length e < window_size then 0
                              else window_count window_size slide_step (length e)) gs)"

text \<open>
  Labelled lines for the concrete instances: engine \<open>u\<close> at cycle \<open>t\<close> of \<open>m\<close>, every
  sensor reading \<open>t\<close>.
\<close>

definition line :: "int \<Rightarrow> int \<Rightarrow> int \<Rightarrow> labeled" where
  "line u t m =
     \<lparr>unit_nr = u, time_cycles = t, cols = (\<lambda>_. of_int t), max_cycles = m,
      rul = Finite (of_int (m - t))\<rparr>"

definition engine_of :: "int \<Rightarrow> nat \<Rightarrow> labeled list" where
  "engine_of u n = map (\<lambda>t. line u (int t) (int n)) [1 ..< Suc n]"

subsection \<open>split_val_set\<close>

text \<open>
  Floats. A finite float64 is the rational it denotes. \<open>float64 v\<close> is the double
  nearest to the rational \<open>v\<close>, ties to the even significand, as IEEE 754 rounds every
  arithmetic result and as Python converts an integer or reads a decimal literal: the
  significand has 53 bits, the exponent of a normal number is at least \<open>-1022\<close>, below
  that the spacing stays \<open>2^-1074\<close>, and a result of magnitude \<open>2^1024\<close> or more is
  infinite.
\<close>

definition pow2 :: "int \<Rightarrow> rat" where
  "pow2 e = (if 0 \<le> e then 2 ^ nat e else 1 / 2 ^ nat (- e))"

text \<open>
  \<open>ilog2 v\<close> is the integer \<open>e\<close> with \<open>2^e \<le> v < 2^(e+1)\<close>, for \<open>v > 0\<close>; \<open>bitlen n\<close> is
  the number of binary digits of \<open>n\<close>.
\<close>

definition ilog2 :: "rat \<Rightarrow> int" where
  "ilog2 v = (if 1 \<le> v then bitlen \<lfloor>v\<rfloor> - 1 else - bitlen (\<lceil>1 / v\<rceil> - 1))"

definition round_half_even :: "rat \<Rightarrow> int" where
  "round_half_even v =
     (let f = \<lfloor>v\<rfloor>; d = v - of_int f in
      if d < 1 / 2 then f else if 1 / 2 < d then f + 1 else if even f then f else f + 1)"

definition float64 :: "rat \<Rightarrow> fnum" where
  "float64 v =
     (if v = 0 then Finite 0
      else
        (let a = \<bar>v\<bar>;
             e = max (ilog2 a) (- 1022);
             ulp = pow2 (e - 52);
             r = of_int (round_half_even (a / ulp)) * ulp
         in if pow2 1024 \<le> r then NonFinite else Finite (if v < 0 then - r else r)))"

text \<open>The double a decimal literal such as \<open>0.2\<close> denotes.\<close>

definition literal :: "rat \<Rightarrow> rat" where
  "literal v = (case float64 v of Finite d \<Rightarrow> d | NonFinite \<Rightarrow> 0)"

text \<open>
  \<open>int(x)\<close> on a finite float truncates toward zero. Line 287 computes
  \<open>int(len(grouped) * val_size)\<close>: the length is converted to a float, the product is
  rounded to a float, and the result is truncated. Python raises OverflowError when the
  length has no float or the product is infinite. \<open>val_size\<close> is a finite float.
\<close>

definition py_int :: "rat \<Rightarrow> int" where
  "py_int x = (if 0 \<le> x then \<lfloor>x\<rfloor> else \<lceil>x\<rceil>)"

definition val_count :: "nat \<Rightarrow> rat \<Rightarrow> error + int" where
  "val_count n val_size =
     (case float64 (of_nat n) of
        NonFinite \<Rightarrow> Inl Overflow_error
      | Finite a \<Rightarrow>
          (case float64 (a * val_size) of
             NonFinite \<Rightarrow> Inl Overflow_error
           | Finite p \<Rightarrow> Inr (py_int p)))"

text \<open>
  \<open>np.random.choice(a, size=n, replace=False)\<close>. The generator is not part of the
  program: the list it draws is the argument \<open>drawn\<close>, and \<open>valid_draw\<close> is what numpy
  promises of it, \<open>n\<close> different elements of \<open>a\<close>.
\<close>

definition choice_no_replace :: "'a list \<Rightarrow> int \<Rightarrow> 'a list \<Rightarrow> error + 'a list" where
  "choice_no_replace a n drawn =
     (if a = [] \<and> n \<noteq> 0 then Inl Empty_population
      else if n > int (length a) then Inl Sample_larger_than_population
      else if n < 0 then Inl Negative_size
      else Inr drawn)"

definition valid_draw :: "'a list \<Rightarrow> int \<Rightarrow> 'a list \<Rightarrow> bool" where
  "valid_draw a n drawn =
     (int (length drawn) = n \<and> distinct drawn \<and> list_all (\<lambda>x. x \<in> set a) drawn)"

text \<open>\<open>pd.concat\<close> raises on an empty list of frames.\<close>

definition pd_concat :: "'a list list \<Rightarrow> error + 'a list" where
  "pd_concat frames = (if frames = [] then Inl No_objects_to_concatenate else Inr (concat frames))"

text \<open>
  Lines 288-293: the loop over \<open>range(1, len(grouped) + 1)\<close>, with the two lists
  \<open>train_set_result\<close> and \<open>val_set_result\<close> as its state.
\<close>

fun split_loop ::
  "('a row_scheme) list \<Rightarrow> int list \<Rightarrow> int list
     \<Rightarrow> ('a row_scheme) list list \<times> ('a row_scheme) list list
     \<Rightarrow> ('a row_scheme) list list \<times> ('a row_scheme) list list" where
  "split_loop train_set val_index [] (train_set_result, val_set_result) =
     (train_set_result, val_set_result)"
| "split_loop train_set val_index (i # rest) (train_set_result, val_set_result) =
     (let data = engine_rows train_set i in
      if i \<in> set val_index
      then split_loop train_set val_index rest (train_set_result, val_set_result @ [data])
      else split_loop train_set val_index rest (train_set_result @ [data], val_set_result))"

definition py_range :: "nat \<Rightarrow> nat \<Rightarrow> int list" where
  "py_range a b = map int [a ..< b]"

definition split_val_set ::
  "('a row_scheme) list \<Rightarrow> rat \<Rightarrow> int list
     \<Rightarrow> error + (('a row_scheme) list \<times> ('a row_scheme) list)" where
  "split_val_set train_set val_size drawn =
     (let n = length (groupby train_set) in
      case val_count n val_size of
        Inl e \<Rightarrow> Inl e
      | Inr k \<Rightarrow>
          (case choice_no_replace (py_range 1 (n + 1)) k drawn of
             Inl e \<Rightarrow> Inl e
           | Inr val_index \<Rightarrow>
               (case split_loop train_set val_index (py_range 1 (n + 1)) ([], []) of
                  (train_set_result, val_set_result) \<Rightarrow>
                    (case pd_concat train_set_result of
                       Inl e \<Rightarrow> Inl e
                     | Inr train_data \<Rightarrow>
                         (case pd_concat val_set_result of
                            Inl e \<Rightarrow> Inl e
                          | Inr val_data \<Rightarrow> Inr (train_data, val_data))))))"

text \<open>
  For the statements below: the engines of a frame are numbered densely \<open>1..N\<close>; and
  Python's \<open>round\<close> (half to even), the count the specification names.
\<close>

definition dense :: "('a row_scheme) list \<Rightarrow> bool" where
  "dense df = (unit_keys df = py_range 1 (length (unit_keys df) + 1))"

definition py_round :: "rat \<Rightarrow> int" where
  "py_round x = round_half_even x"

text \<open>A frame of four engines, the first of two lines, for the concrete instances.\<close>

definition four_engines :: "labeled list" where
  "four_engines = engine_of 1 2 @ engine_of 2 1 @ engine_of 3 1 @ engine_of 4 1"

text \<open>A frame of three engines with the ids 5, 6 and 7, one line each.\<close>

definition sparse_engines :: "labeled list" where
  "sparse_engines = [line 5 1 1, line 6 1 1, line 7 1 1]"

subsection \<open>The samplers\<close>

text \<open>
  A sampler reads the three parallel arrays of its dataset: \<open>data\<close> (one sample per
  index), \<open>ids\<close> and \<open>labels\<close>. Label arrays are flat and hold finite floats, taken as
  rationals. An index is a natural number; \<open>a[i]\<close> past the end raises IndexError.
\<close>

definition getitem :: "'a list \<Rightarrow> nat \<Rightarrow> error + 'a" where
  "getitem xs i = (if i < length xs then Inr (xs ! i) else Inl Index_out_of_range)"

subsubsection \<open>CmapssRandomNegtiveSampler.sample\<close>

text \<open>
  Line 135: the indices whose label is further than \<open>thresh\<close> from the label at \<open>index\<close>
  (\<open>np.argwhere\<close>, a column of indices in ascending order).
\<close>

definition candidates :: "rat list \<Rightarrow> rat \<Rightarrow> nat \<Rightarrow> nat list" where
  "candidates labels thresh index =
     filter (\<lambda>i. \<bar>labels ! i - labels ! index\<bar> > thresh) [0 ..< length labels]"

text \<open>
  \<open>np.squeeze\<close> removes every axis of length one: a column of two or more indices
  becomes a flat array, the empty column a flat empty array, and a column of exactly
  one index \<open>c\<close> becomes an array of no axis, which \<open>np.random.choice\<close> reads as the
  integer \<open>c\<close> and so draws from \<open>arange(c)\<close>.
\<close>

definition squeezed_population :: "nat list \<Rightarrow> nat list" where
  "squeezed_population cs = (case cs of [c] \<Rightarrow> [0 ..< c] | _ \<Rightarrow> cs)"

definition random_negative_sample ::
  "'a list \<Rightarrow> rat list \<Rightarrow> int \<Rightarrow> rat \<Rightarrow> nat \<Rightarrow> nat list \<Rightarrow> error + ('a list \<times> rat list)" where
  "random_negative_sample data labels neg_num thresh index drawn =
     (if \<not> index < length labels then Inl Index_out_of_range
      else
        (case choice_no_replace (squeezed_population (candidates labels thresh index))
                (neg_num + 1) drawn of
           Inl e \<Rightarrow> Inl e
         | Inr indexes \<Rightarrow>
             if indexes = [] then Inl Index_out_of_range
             else
               (let indexes = indexes[0 := index] in
                case collect (getitem data) indexes of
                  Inl e \<Rightarrow> Inl e
                | Inr xs \<Rightarrow>
                    (case collect (getitem labels) indexes of
                       Inl e \<Rightarrow> Inl e
                     | Inr ls \<Rightarrow> Inr (xs, ls)))))"

subsubsection \<open>CmapssNegativeSampler.sample\<close>

text \<open>
  \<open>engine_num\<close> and \<open>interval_nums\<close> are counts, natural numbers here. The three output
  lists start as \<open>[0] * (interval_nums * engine_num)\<close>; a slot is \<open>None\<close> while it holds
  that initial placeholder. \<open>neg_j\<close> is the variable \<open>j\<close> of the source, the position the
  next negative is written to.
\<close>

record 'a sampler_state =
  neg_j :: nat
  neg_samples :: "'a option list"
  neg_labels :: "rat option list"
  neg_ids :: "int option list"

definition np_unique :: "int list \<Rightarrow> int list" where
  "np_unique xs = sort (remdups xs)"

text \<open>Line 104: \<open>np.argwhere(self.ids == engine)\<close>.\<close>

definition argwhere_engine :: "int list \<Rightarrow> int \<Rightarrow> nat list" where
  "argwhere_engine ids engine = filter (\<lambda>p. ids ! p = engine) [0 ..< length ids]"

text \<open>Lines 107-110: the bounds of segment \<open>i\<close> of an engine.\<close>

definition random_range :: "nat list \<Rightarrow> nat \<Rightarrow> nat \<Rightarrow> nat \<Rightarrow> nat \<times> nat" where
  "random_range sample_indexes gap interval_nums i =
     (let random_range_start = sample_indexes ! 0 + i * gap;
          random_range_end = (if Suc i \<noteq> interval_nums then random_range_start + gap
                              else last sample_indexes + 1)
      in (random_range_start, random_range_end))"

text \<open>Line 111: the test that skips a segment.\<close>

definition skips :: "int list \<Rightarrow> nat \<Rightarrow> nat \<Rightarrow> int \<Rightarrow> nat \<Rightarrow> bool" where
  "skips ids interval_nums index engine i =
     (case random_range (argwhere_engine ids engine)
             (length (argwhere_engine ids engine) div interval_nums) interval_nums i of
        (random_range_start, random_range_end) \<Rightarrow>
          random_range_start \<le> index \<and> index < random_range_end \<and> engine = ids ! index)"

text \<open>
  Lines 107-117, one pass of the inner loop. \<open>np.random.choice(range(a, b), 1)\<close> raises
  on an empty range and otherwise returns some index of the range: the generator is the
  argument \<open>pick\<close>, and the index drawn for segment \<open>i\<close> of \<open>engine\<close> is
  \<open>a + pick engine i mod (b - a)\<close>.
\<close>

definition segment_step ::
  "'a list \<Rightarrow> int list \<Rightarrow> rat list \<Rightarrow> nat \<Rightarrow> nat \<Rightarrow> (int \<Rightarrow> nat \<Rightarrow> nat) \<Rightarrow> int \<Rightarrow> nat
     \<Rightarrow> 'a sampler_state \<Rightarrow> error + 'a sampler_state" where
  "segment_step data ids labels interval_nums index pick engine i st =
     (let sample_indexes = argwhere_engine ids engine;
          gap = length sample_indexes div interval_nums
      in if sample_indexes = [] then Inl Index_out_of_range
         else
           (case random_range sample_indexes gap interval_nums i of
              (random_range_start, random_range_end) \<Rightarrow>
                if random_range_start \<le> index \<and> index < random_range_end
                   \<and> engine = ids ! index
                then Inr st
                else if random_range_end \<le> random_range_start then Inl Empty_population
                else
                  (let sample_index = random_range_start
                         + pick engine i mod (random_range_end - random_range_start)
                   in case getitem data sample_index of
                        Inl e \<Rightarrow> Inl e
                      | Inr x \<Rightarrow>
                          if \<not> neg_j st < length (neg_samples st) then Inl Index_out_of_range
                          else
                            (case getitem labels sample_index of
                               Inl e \<Rightarrow> Inl e
                             | Inr l \<Rightarrow>
                                 if \<not> neg_j st < length (neg_labels st)
                                 then Inl Index_out_of_range
                                 else
                                   (case getitem ids sample_index of
                                      Inl e \<Rightarrow> Inl e
                                    | Inr u \<Rightarrow>
                                        if \<not> neg_j st < length (neg_ids st)
                                        then Inl Index_out_of_range
                                        else Inr \<lparr>neg_j = neg_j st + 1,
                                                 neg_samples = (neg_samples st)[neg_j st := Some x],
                                                 neg_labels = (neg_labels st)[neg_j st := Some l],
                                                 neg_ids = (neg_ids st)[neg_j st := Some u]\<rparr>)))))"

fun segments_loop ::
  "'a list \<Rightarrow> int list \<Rightarrow> rat list \<Rightarrow> nat \<Rightarrow> nat \<Rightarrow> (int \<Rightarrow> nat \<Rightarrow> nat) \<Rightarrow> int \<Rightarrow> nat list
     \<Rightarrow> 'a sampler_state \<Rightarrow> error + 'a sampler_state" where
  "segments_loop data ids labels interval_nums index pick engine [] st = Inr st"
| "segments_loop data ids labels interval_nums index pick engine (i # rest) st =
     (case segment_step data ids labels interval_nums index pick engine i st of
        Inl e \<Rightarrow> Inl e
      | Inr st' \<Rightarrow> segments_loop data ids labels interval_nums index pick engine rest st')"

text \<open>
  Lines 103-117, the outer loop. \<open>gap = count // interval_nums\<close> is computed before the
  inner loop and raises when \<open>interval_nums\<close> is zero.
\<close>

fun sampler_engines_loop ::
  "'a list \<Rightarrow> int list \<Rightarrow> rat list \<Rightarrow> nat \<Rightarrow> nat \<Rightarrow> (int \<Rightarrow> nat \<Rightarrow> nat) \<Rightarrow> int list
     \<Rightarrow> 'a sampler_state \<Rightarrow> error + 'a sampler_state" where
  "sampler_engines_loop data ids labels interval_nums index pick [] st = Inr st"
| "sampler_engines_loop data ids labels interval_nums index pick (engine # rest) st =
     (if interval_nums = 0 then Inl Zero_division
      else
        (case segments_loop data ids labels interval_nums index pick engine
                [0 ..< interval_nums] st of
           Inl e \<Rightarrow> Inl e
         | Inr st' \<Rightarrow> sampler_engines_loop data ids labels interval_nums index pick rest st'))"

text \<open>
  Lines 92-97: the engines negatives are drawn from; the anchor's engine replaces the
  first drawn engine when it was not drawn.
\<close>

definition sampled_engines :: "int list \<Rightarrow> nat \<Rightarrow> nat \<Rightarrow> int list \<Rightarrow> error + int list" where
  "sampled_engines ids engine_num index drawn =
     (case choice_no_replace (np_unique ids) (int engine_num) drawn of
        Inl e \<Rightarrow> Inl e
      | Inr engine_ids \<Rightarrow>
          if ids ! index \<notin> set engine_ids
          then (if engine_ids = [] then Inl Index_out_of_range
                else Inr (engine_ids[0 := ids ! index]))
          else Inr engine_ids)"

text \<open>
  Lines 92-121: the three lists as they stand just before the \<open>return\<close>.
\<close>

definition negative_sample_slots ::
  "'a list \<Rightarrow> int list \<Rightarrow> rat list \<Rightarrow> nat \<Rightarrow> nat \<Rightarrow> nat \<Rightarrow> int list \<Rightarrow> (int \<Rightarrow> nat \<Rightarrow> nat)
     \<Rightarrow> error + 'a sampler_state" where
  "negative_sample_slots data ids labels engine_num interval_nums index drawn pick =
     (if \<not> index < length ids then Inl Index_out_of_range
      else
        (case sampled_engines ids engine_num index drawn of
           Inl e \<Rightarrow> Inl e
         | Inr engine_ids \<Rightarrow>
             (case sampler_engines_loop data ids labels interval_nums index pick engine_ids
                     \<lparr>neg_j = 1,
                      neg_samples = replicate (interval_nums * engine_num) None,
                      neg_labels = replicate (interval_nums * engine_num) None,
                      neg_ids = replicate (interval_nums * engine_num) None\<rparr> of
                Inl e \<Rightarrow> Inl e
              | Inr st \<Rightarrow>
                  (case getitem data index of
                     Inl e \<Rightarrow> Inl e
                   | Inr x \<Rightarrow>
                       if neg_samples st = [] then Inl Index_out_of_range
                       else
                         (case getitem labels index of
                            Inl e \<Rightarrow> Inl e
                          | Inr l \<Rightarrow>
                              if neg_labels st = [] \<or> neg_ids st = []
                              then Inl Index_out_of_range
                              else Inr (st\<lparr>neg_samples := (neg_samples st)[0 := Some x],
                                           neg_labels := (neg_labels st)[0 := Some l],
                                           neg_ids := (neg_ids st)[0 := Some (ids ! index)]\<rparr>))))))"

text \<open>
  Line 122. The samples of a dataset are arrays (windows); \<open>np.stack\<close> cannot stack the
  number 0, a placeholder, with them and raises. \<open>np.array(neg_labels)\<close> takes a
  placeholder as the label 0.
\<close>

definition np_stack :: "'a option list \<Rightarrow> error + 'a list" where
  "np_stack slots =
     (if list_ex (\<lambda>s. s = None) slots then Inl Stack_shape_mismatch else Inr (map the slots))"

definition np_array_labels :: "rat option list \<Rightarrow> rat list" where
  "np_array_labels slots = map (\<lambda>s. case s of None \<Rightarrow> 0 | Some l \<Rightarrow> l) slots"

definition negative_sample ::
  "'a list \<Rightarrow> int list \<Rightarrow> rat list \<Rightarrow> nat \<Rightarrow> nat \<Rightarrow> nat \<Rightarrow> int list \<Rightarrow> (int \<Rightarrow> nat \<Rightarrow> nat)
     \<Rightarrow> error + ('a list \<times> rat list)" where
  "negative_sample data ids labels engine_num interval_nums index drawn pick =
     (case negative_sample_slots data ids labels engine_num interval_nums index drawn pick of
        Inl e \<Rightarrow> Inl e
      | Inr st \<Rightarrow>
          (case np_stack (neg_samples st) of
             Inl e \<Rightarrow> Inl e
           | Inr xs \<Rightarrow> Inr (xs, np_array_labels (neg_labels st))))"

text \<open>
  The loop invariant of \<open>sample\<close>: the three lists keep their length \<open>m\<close>, and every
  slot from 1 up to the write position holds a negative.
\<close>

definition slots_ok :: "nat \<Rightarrow> 'a sampler_state \<Rightarrow> bool" where
  "slots_ok m st =
     (length (neg_samples st) = m \<and> length (neg_labels st) = m \<and> length (neg_ids st) = m \<and>
      1 \<le> neg_j st \<and> neg_j st \<le> max 1 m \<and>
      (\<forall>p. 1 \<le> p \<and> p < neg_j st \<longrightarrow>
         neg_samples st ! p \<noteq> None \<and> neg_labels st ! p \<noteq> None \<and> neg_ids st ! p \<noteq> None))"

section \<open>The hand-written LSTM (models/RULPrediction/SimpleModels.py)\<close>

text \<open>
  Tensors hold reals here (float rounding is not modelled). A tensor of shape
  \<open>(b, n)\<close> is a list of \<open>b\<close> rows. The input \<open>x\<close> of shape \<open>(b, l, f)\<close> is given by its
  batch size \<open>b\<close> and the list of its \<open>l\<close> time slices \<open>x[:, i, :]\<close>, each of shape
  \<open>(b, f)\<close>; the stacked output of shape \<open>(b, l, hidden_size)\<close> is the list of its time
  slices in the same way. Shapes are taken to fit the module's configuration.
\<close>

type_synonym tensor2 = "real list list"

text \<open>
  The module after \<open>__init__\<close>: the four \<open>nn.Linear\<close> layers, each as the map it applies to
  one row of length \<open>input_size + hidden_size\<close>; the configured dropout rate; and the
  layer \<open>nn.Dropout(rate)\<close> as the map it applies at the \<open>i\<close>-th call (its random mask and
  its training mode belong to the environment).
\<close>

record lstm =
  wf :: "real list \<Rightarrow> real list"
  wi :: "real list \<Rightarrow> real list"
  wc :: "real list \<Rightarrow> real list"
  wo :: "real list \<Rightarrow> real list"
  dropout_rate :: real
  dropout_layer :: "nat \<Rightarrow> tensor2 \<Rightarrow> tensor2"
  hidden_size :: nat

text \<open>Line 61: \<open>self.dropout = nn.Dropout(dropout) if dropout > 0 else None\<close>.\<close>

definition dropout :: "lstm \<Rightarrow> (nat \<Rightarrow> tensor2 \<Rightarrow> tensor2) option" where
  "dropout m = (if dropout_rate m > 0 then Some (dropout_layer m) else None)"

definition sigmoid :: "real \<Rightarrow> real" where
  "sigmoid v = 1 / (1 + exp (- v))"

definition zeros :: "nat \<Rightarrow> nat \<Rightarrow> tensor2" where
  "zeros b n = replicate b (replicate n 0)"

text \<open>\<open>torch.concat([a, h], dim=-1)\<close>, a layer or a function on every row, \<open>*\<close> and \<open>+\<close>.\<close>

definition concat_last :: "tensor2 \<Rightarrow> tensor2 \<Rightarrow> tensor2" where
  "concat_last a h = map2 (@) a h"

definition rowwise :: "(real list \<Rightarrow> real list) \<Rightarrow> tensor2 \<Rightarrow> tensor2" where
  "rowwise layer t = map layer t"

definition pointwise :: "(real \<Rightarrow> real) \<Rightarrow> tensor2 \<Rightarrow> tensor2" where
  "pointwise g t = map (map g) t"

definition mul :: "tensor2 \<Rightarrow> tensor2 \<Rightarrow> tensor2" where
  "mul a b = map2 (map2 (*)) a b"

definition add :: "tensor2 \<Rightarrow> tensor2 \<Rightarrow> tensor2" where
  "add a b = map2 (map2 (+)) a b"

text \<open>
  Lines 72-78, one pass of the loop at step \<open>i\<close> on the slice \<open>x[:, i, :]\<close>: the new
  \<open>(h, c)\<close>. The candidate \<open>c_\<close> of the source is \<open>c'\<close>.
\<close>

definition lstm_step :: "lstm \<Rightarrow> nat \<Rightarrow> tensor2 \<Rightarrow> tensor2 \<times> tensor2 \<Rightarrow> tensor2 \<times> tensor2" where
  "lstm_step m i x_i hc =
     (case hc of (h, c) \<Rightarrow>
        let ft = pointwise sigmoid (rowwise (wf m) (concat_last x_i h));
            it = pointwise sigmoid (rowwise (wi m) (concat_last x_i h));
            c' = pointwise tanh (rowwise (wc m) (concat_last x_i h));
            c = add (mul ft c) (mul it c');
            ot = pointwise sigmoid (rowwise (wo m) (concat_last x_i h));
            h = mul ot (pointwise tanh c);
            h = (case dropout m of None \<Rightarrow> h | Some d \<Rightarrow> d i h)
        in (h, c))"

text \<open>Lines 71-79: the loop, with \<open>i\<close>, \<open>h\<close>, \<open>c\<close> and the list \<open>outputs\<close> as its state.\<close>

fun forward_loop ::
  "lstm \<Rightarrow> tensor2 list \<Rightarrow> nat \<Rightarrow> tensor2 \<times> tensor2 \<Rightarrow> tensor2 list
     \<Rightarrow> (tensor2 \<times> tensor2) \<times> tensor2 list" where
  "forward_loop m [] i hc outputs = (hc, outputs)"
| "forward_loop m (x_i # rest) i hc outputs =
     (let hc' = lstm_step m i x_i hc
      in forward_loop m rest (i + 1) hc' (outputs @ [fst hc']))"

text \<open>
  Lines 67-80. \<open>torch.stack\<close> raises on an empty list, which is what \<open>outputs\<close> is when
  the sequence has no step.
\<close>

definition forward :: "lstm \<Rightarrow> nat \<Rightarrow> tensor2 list \<Rightarrow> error + (tensor2 list \<times> (tensor2 \<times> tensor2))" where
  "forward m b x =
     (case forward_loop m x 0 (zeros b (hidden_size m), zeros b (hidden_size m)) [] of
        (hc, outputs) \<Rightarrow> if outputs = [] then Inl Stack_empty else Inr (outputs, hc))"

text \<open>
  The recurrence as the specification writes it: \<open>h_0 = c_0 = 0\<close> and, for the step
  with input \<open>x_t\<close>, \<open>z_t = concat(x_t, h_{t-1})\<close>, the three gates and the candidate from
  \<open>z_t\<close>, \<open>c_t = f_t * c_{t-1} + i_t * candidate\<close>, \<open>h_t = o_t * tanh(c_t)\<close>, with dropout on
  \<open>h_t\<close> when the configured rate is positive. \<open>spec_state m b x t\<close> is \<open>(h_t, c_t)\<close>; the
  steps are counted from 1 and the \<open>t\<close>-th step reads the slice of index \<open>t - 1\<close>.
\<close>

fun spec_state :: "lstm \<Rightarrow> nat \<Rightarrow> tensor2 list \<Rightarrow> nat \<Rightarrow> tensor2 \<times> tensor2" where
  "spec_state m b x 0 = (zeros b (hidden_size m), zeros b (hidden_size m))"
| "spec_state m b x (Suc t) =
     (let h_prev = fst (spec_state m b x t);
          c_prev = snd (spec_state m b x t);
          z = concat_last (x ! t) h_prev;
          f = pointwise sigmoid (rowwise (wf m) z);
          i = pointwise sigmoid (rowwise (wi m) z);
          candidate = pointwise tanh (rowwise (wc m) z);
          c = add (mul f c_prev) (mul i candidate);
          out = pointwise sigmoid (rowwise (wo m) z);
          h = mul out (pointwise tanh c)
      in (if dropout_rate m > 0 then dropout_layer m t h else h, c))"

text \<open>A module of one hidden unit without dropout, for the concrete instances.\<close>

definition lstm_example :: lstm where
  "lstm_example =
     \<lparr>wf = (\<lambda>z. [sum_list z]), wi = (\<lambda>z. [sum_list z]), wc = (\<lambda>z. [sum_list z]),
      wo = (\<lambda>z. [sum_list z]), dropout_rate = 0, dropout_layer = (\<lambda>i h. h),
      hidden_size = 1\<rparr>"

section \<open>Labelling: properties of generate_rul\<close>

lemma unit_keys_set: "set (unit_keys df) = unit_nr ` set df"
  by (simp add: unit_keys_def)

lemma unit_keys_distinct: "distinct (unit_keys df)"
  by (simp add: unit_keys_def)

lemma key_position: "r \<in> set df \<Longrightarrow> \<exists>j<length (unit_keys df). unit_keys df ! j = unit_nr r"
  using unit_keys_set [of df] by (metis image_eqI in_set_conv_nth)


lemma wrap64_id: "in_int64 v \<Longrightarrow> wrap64 v = v"
  by (simp add: wrap64_def in_int64_def)

lemma table_zip:
  "length ys = length ks \<Longrightarrow>
   map (\<lambda>((k, m), y). (k, wrap64 (m + y))) (zip (map (\<lambda>k. (k, f k)) ks) ys)
     = zip ks (map (\<lambda>(k, y). wrap64 (f k + y)) (zip ks ys))"
  by (induction ks ys rule: list_induct2') auto

lemma table_lookup:
  assumes "distinct ks" "length ys = length ks" "j < length ks"
  shows "map_of (map (\<lambda>((k, m), y). (k, wrap64 (m + y))) (zip (map (\<lambda>k. (k, f k)) ks) ys)) (ks ! j)
           = Some (wrap64 (f (ks ! j) + ys ! j))"
  using assms by (simp add: table_zip map_of_zip_nth)

lemma table_lookup0:
  "map_of (map (\<lambda>k. (k, f k)) ks) k = (if k \<in> set ks then Some (f k) else None)"
  by (induction ks) auto

text \<open>
  The \<open>max_cycles\<close> the code gives engine \<open>j\<close>: its largest cycle index, to which test mode
  adds the remainder in int64.
\<close>

lemma add_y_test_ok:
  assumes "y_test_ok df y_test"
  shows "\<exists>mx. add_y_test (RUL_max df) y_test = Inr mx
     \<and> (\<forall>j<length (unit_keys df). map_of mx (unit_keys df ! j)
           = Some (case y_test of
                     None \<Rightarrow> Max (set (map time_cycles (engine_rows df (unit_keys df ! j))))
                   | Some ys \<Rightarrow> wrap64 (Max (set (map time_cycles (engine_rows df (unit_keys df ! j)))) + ys ! j)))"
proof (cases y_test)
  case None
  then show ?thesis
    by (simp add: add_y_test_def RUL_max_def table_lookup0)
next
  case (Some ys)
  with assms have len: "length ys = length (unit_keys df)"
    by (simp add: y_test_ok_def)
  show ?thesis
    using len Some
    by (simp add: add_y_test_def RUL_max_def table_lookup [OF unit_keys_distinct])
qed

lemma merge_label_total:
  assumes "\<forall>r\<in>set df. map_of mx (unit_nr r) \<noteq> None"
  shows "merge_label n T mx df = map (\<lambda>r. label_row n T r (total_life mx (unit_nr r))) df"
  using assms by (induction df) (auto simp: merge_label_def total_life_def)

lemma generate_rul_char:
  assumes "y_test_ok df y_test"
  obtains mx where "\<And>n T. generate_rul df y_test n T = Inr (map (\<lambda>r. label_row n T r (total_life mx (unit_nr r))) df)"
    and "\<And>j. j < length (unit_keys df) \<Longrightarrow> total_life mx (unit_keys df ! j)
           = (case y_test of
                None \<Rightarrow> Max (set (map time_cycles (engine_rows df (unit_keys df ! j))))
              | Some ys \<Rightarrow> wrap64 (Max (set (map time_cycles (engine_rows df (unit_keys df ! j)))) + ys ! j))"
proof -
  from add_y_test_ok [OF assms] obtain mx where
    mx: "add_y_test (RUL_max df) y_test = Inr mx"
    and look: "\<And>j. j < length (unit_keys df) \<Longrightarrow> map_of mx (unit_keys df ! j)
           = Some (case y_test of
                     None \<Rightarrow> Max (set (map time_cycles (engine_rows df (unit_keys df ! j))))
                   | Some ys \<Rightarrow> wrap64 (Max (set (map time_cycles (engine_rows df (unit_keys df ! j)))) + ys ! j))"
    by blast
  have "\<forall>r\<in>set df. map_of mx (unit_nr r) \<noteq> None"
  proof
    fix r assume "r \<in> set df"
    then obtain j where "j < length (unit_keys df)" "unit_keys df ! j = unit_nr r"
      using key_position by blast
    with look [of j] show "map_of mx (unit_nr r) \<noteq> None" by simp
  qed
  then have "\<And>n T. generate_rul df y_test n T = Inr (map (\<lambda>r. label_row n T r (total_life mx (unit_nr r))) df)"
    by (simp add: generate_rul_def mx merge_label_total)
  moreover have "\<And>j. j < length (unit_keys df) \<Longrightarrow> total_life mx (unit_keys df ! j)
           = (case y_test of
                None \<Rightarrow> Max (set (map time_cycles (engine_rows df (unit_keys df ! j))))
              | Some ys \<Rightarrow> wrap64 (Max (set (map time_cycles (engine_rows df (unit_keys df ! j)))) + ys ! j))"
    by (simp add: total_life_def look)
  ultimately show thesis using that by blast
qed

lemma life_no_wrap:
  assumes "in_int64 (engine_life df y_test j)"
  shows "(case y_test of
            None \<Rightarrow> Max (set (map time_cycles (engine_rows df (unit_keys df ! j))))
          | Some ys \<Rightarrow> wrap64 (Max (set (map time_cycles (engine_rows df (unit_keys df ! j)))) + ys ! j))
         = engine_life df y_test j"
  using assms wrap64_id [of "engine_life df y_test j"]
  by (simp add: engine_life_def remainder_of_def split: option.splits)

lemma Max_engine_ge:
  assumes "r \<in> set df"
  shows "time_cycles r \<le> Max (set (map time_cycles (engine_rows df (unit_nr r))))"
  using assms by (intro Max_ge) (auto simp: engine_rows_def)

lemma no_overflow_props:
  assumes "no_overflow df y_test" "j < length (unit_keys df)"
  shows "in_int64 (engine_life df y_test j)"
    and "r \<in> set df \<Longrightarrow> unit_nr r = unit_keys df ! j
           \<Longrightarrow> in_int64 (engine_life df y_test j - time_cycles r)"
  using assms by (auto simp: no_overflow_def list_all_iff engine_rows_def)

text \<open>
  Claim C5, as amended. Where no int64 operation wraps (\<open>no_overflow\<close>), a frame
  labelled by \<open>generate_rul\<close> with threshold 0 and no normalisation keeps its lines, and
  on every line \<open>rul + time_cycles = max_cycles\<close>, where \<open>max_cycles\<close> is the largest cycle
  index observed for the line's engine plus, in test mode, the remainder supplied for
  that engine (the \<open>j\<close>-th remainder for the \<open>j\<close>-th engine id in ascending order).
\<close>

theorem generate_rul_unclipped:
  assumes ok: "y_test_ok df y_test" and fit: "no_overflow df y_test"
  shows "\<exists>out. generate_rul df y_test False 0 = Inr out \<and> length out = length df \<and>
     (\<forall>i<length df.
        unit_nr (out ! i) = unit_nr (df ! i) \<and>
        time_cycles (out ! i) = time_cycles (df ! i) \<and>
        cols (out ! i) = cols (df ! i) \<and>
        (\<exists>q. rul (out ! i) = Finite q \<and>
             q + of_int (time_cycles (out ! i)) = of_int (max_cycles (out ! i))) \<and>
        (\<forall>j<length (unit_keys df). unit_nr (df ! i) = unit_keys df ! j \<longrightarrow>
           max_cycles (out ! i)
             = Max (set (map time_cycles (engine_rows df (unit_nr (df ! i)))))
               + (case y_test of None \<Rightarrow> 0 | Some ys \<Rightarrow> ys ! j)))"
proof -
  from generate_rul_char [OF ok] obtain mx where
    run: "\<And>n T. generate_rul df y_test n T
            = Inr (map (\<lambda>r. label_row n T r (total_life mx (unit_nr r))) df)"
    and life: "\<And>j. j < length (unit_keys df) \<Longrightarrow> total_life mx (unit_keys df ! j)
           = (case y_test of
                None \<Rightarrow> Max (set (map time_cycles (engine_rows df (unit_keys df ! j))))
              | Some ys \<Rightarrow> wrap64 (Max (set (map time_cycles (engine_rows df (unit_keys df ! j)))) + ys ! j))"
    by blast
  let ?out = "map (\<lambda>r. label_row False 0 r (total_life mx (unit_nr r))) df"
  have life': "total_life mx (unit_keys df ! j) = engine_life df y_test j"
    if "j < length (unit_keys df)" for j
    using life [OF that] life_no_wrap [OF no_overflow_props(1) [OF fit that]] by simp
  have row: "unit_nr (?out ! i) = unit_nr (df ! i) \<and>
        time_cycles (?out ! i) = time_cycles (df ! i) \<and>
        cols (?out ! i) = cols (df ! i) \<and>
        (\<exists>q. rul (?out ! i) = Finite q \<and>
             q + of_int (time_cycles (?out ! i)) = of_int (max_cycles (?out ! i))) \<and>
        (\<forall>j<length (unit_keys df). unit_nr (df ! i) = unit_keys df ! j \<longrightarrow>
           max_cycles (?out ! i)
             = Max (set (map time_cycles (engine_rows df (unit_nr (df ! i)))))
               + (case y_test of None \<Rightarrow> 0 | Some ys \<Rightarrow> ys ! j))" if i: "i < length df" for i
  proof -
    let ?r = "df ! i"
    have r: "?r \<in> set df" using i by simp
    then obtain j where j: "j < length (unit_keys df)" "unit_keys df ! j = unit_nr ?r"
      using key_position by blast
    have m: "total_life mx (unit_nr ?r) = engine_life df y_test j"
      using life' [OF j(1)] j(2) by simp
    have w: "wrap64 (engine_life df y_test j - time_cycles ?r) = engine_life df y_test j - time_cycles ?r"
      using no_overflow_props(2) [OF fit j(1) r] j(2) by (simp add: wrap64_id)
    have out: "?out ! i = label_row False 0 ?r (engine_life df y_test j)"
      using i m by simp
    have "\<forall>j'<length (unit_keys df). unit_nr ?r = unit_keys df ! j' \<longrightarrow> j' = j"
      using j unit_keys_distinct [of df] by (metis nth_eq_iff_index_eq)
    moreover have "rul (label_row False 0 ?r (engine_life df y_test j))
                     = Finite (of_int (engine_life df y_test j - time_cycles ?r))"
      by (simp add: label_row_def w)
    moreover have "max_cycles (label_row False 0 ?r (engine_life df y_test j)) = engine_life df y_test j"
      "unit_nr (label_row False 0 ?r (engine_life df y_test j)) = unit_nr ?r"
      "time_cycles (label_row False 0 ?r (engine_life df y_test j)) = time_cycles ?r"
      "cols (label_row False 0 ?r (engine_life df y_test j)) = cols ?r"
      by (simp_all add: label_row_def)
    moreover have "engine_life df y_test j
                     = Max (set (map time_cycles (engine_rows df (unit_nr ?r))))
                       + (case y_test of None \<Rightarrow> 0 | Some ys \<Rightarrow> ys ! j)"
      using j(2) by (simp add: engine_life_def remainder_of_def)
    ultimately show ?thesis
      unfolding out by auto
  qed
  have "generate_rul df y_test False 0 = Inr ?out" by (rule run)
  moreover have "length ?out = length df" by simp
  ultimately show ?thesis using row by blast
qed

text \<open>
  Claim C5 as stated fails where the int64 sum wraps: one engine of cycles 1 and 2 with
  remainder \<open>2^63 - 2\<close>. The sum \<open>2 + (2^63 - 2)\<close> wraps to \<open>-2^63\<close>, which becomes
  \<open>max_cycles\<close>, and the label of the first line wraps to \<open>2^63 - 1\<close>.
\<close>

theorem generate_rul_unclipped_counterexample:
  "y_test_ok frame_two_cycles (Some [2 ^ 63 - 2]) \<and>
   (\<exists>out. generate_rul frame_two_cycles (Some [2 ^ 63 - 2]) False 0 = Inr out \<and>
      time_cycles (out ! 0) = 1 \<and>
      max_cycles (out ! 0) = - (2 ^ 63) \<and>
      rul (out ! 0) = Finite (2 ^ 63 - 1) \<and>
      (2 ^ 63 - 1 :: rat) + of_int (time_cycles (out ! 0)) \<noteq> of_int (max_cycles (out ! 0)) \<and>
      max_cycles (out ! 0)
        \<noteq> Max (set (map time_cycles (engine_rows frame_two_cycles 1))) + (2 ^ 63 - 2))"
  by (simp add: y_test_ok_def generate_rul_def add_y_test_def RUL_max_def
        unit_keys_def engine_rows_def frame_two_cycles_def merge_label_def label_row_def
        wrap64_def)

lemma label_row_normalized:
  assumes t: "1 \<le> time_cycles r" and m: "time_cycles r \<le> m" and fit: "m < 2 ^ 63"
  shows "\<exists>c q. rul (label_row False T r m) = Finite (of_int c)
           \<and> c = (if T > 0 \<and> m - time_cycles r > T then T else m - time_cycles r)
           \<and> max_cycles (label_row True T r m) = max_cycles (label_row False T r m)
           \<and> max_cycles (label_row True T r m) = (if T > 0 \<and> m > T then T + 1 else m)
           \<and> rul (label_row True T r m) = Finite q
           \<and> q = (of_int c + 1) / of_int (max_cycles (label_row True T r m))
           \<and> 0 < q \<and> q \<le> 1"
proof -
  define c where "c = (if T > 0 \<and> m - time_cycles r > T then T else m - time_cycles r)"
  define m1 where "m1 = (if T > 0 \<and> m > T then T + 1 else m)"
  have w0: "wrap64 (m - time_cycles r) = m - time_cycles r"
    using t m fit by (intro wrap64_id) (simp add: in_int64_def)
  have c0: "0 \<le> c" using t m by (auto simp: c_def)
  have cm: "c + 1 \<le> m1" using t m by (auto simp: c_def m1_def)
  have m1: "0 < m1" using c0 cm by linarith
  have "m1 \<le> m" using t m by (auto simp: m1_def)
  then have w1: "wrap64 (c + 1) = c + 1"
    using c0 cm fit by (intro wrap64_id) (simp add: in_int64_def)
  have q: "rul (label_row True T r m) = Finite ((of_int c + 1) / of_int m1)"
    using m1 w1 unfolding label_row_def Let_def w0 c_def [symmetric] m1_def [symmetric]
    by (simp add: true_divide_def)
  have pos: "(0::rat) < (of_int c + 1) / of_int m1"
    using c0 m1 by (simp add: divide_pos_pos add_nonneg_pos)
  have "(of_int c + 1 :: rat) \<le> of_int m1"
    using cm by (metis of_int_1 of_int_add of_int_le_iff)
  then have le: "(of_int c + 1) / of_int m1 \<le> (1::rat)"
    using m1 by (simp add: divide_le_eq_1)
  have "rul (label_row False T r m) = Finite (of_int c)"
    unfolding label_row_def Let_def w0 c_def [symmetric] by simp
  moreover have "max_cycles (label_row True T r m) = m1" "max_cycles (label_row False T r m) = m1"
    by (simp_all add: label_row_def m1_def Let_def)
  ultimately show ?thesis
    using q pos le unfolding c_def [symmetric] m1_def [symmetric] by auto
qed

lemma label_row_raw:
  "rul (label_row False 0 r m) = Finite (of_int (wrap64 (m - time_cycles r)))"
  "max_cycles (label_row False 0 r m) = m"
  by (simp_all add: label_row_def)

lemma life_ge_cycle:
  assumes ok: "y_test_ok df y_test" and nn: "remainders_nonneg y_test" and r: "r \<in> set df"
    and j: "j < length (unit_keys df)" "unit_keys df ! j = unit_nr r"
  shows "time_cycles r \<le> engine_life df y_test j"
proof -
  have "0 \<le> remainder_of y_test j"
    using ok nn j
    by (auto simp: y_test_ok_def remainders_nonneg_def remainder_of_def list_all_length
             split: option.splits)
  with Max_engine_ge [OF r] j(2) show ?thesis by (simp add: engine_life_def)
qed

text \<open>
  Claim C6, as amended. On a frame whose cycle indices are at least 1, with remainders
  that are not negative and every engine's largest cycle index plus its remainder below
  \<open>2^63\<close>, \<open>generate_rul\<close> with normalisation replaces the label of every line by
  \<open>(c + 1) / max_cycles\<close>, where \<open>c\<close> is the label and \<open>max_cycles\<close> the column of the run
  without normalisation at the same threshold (so clipped to the threshold, with
  \<open>max_cycles\<close> redefined to threshold + 1, when the threshold is positive), and the new
  label lies in the interval (0, 1].
\<close>

theorem generate_rul_normalized:
  assumes ok: "y_test_ok df y_test" and nn: "remainders_nonneg y_test"
    and pos: "list_all (\<lambda>r. 1 \<le> time_cycles r) df"
    and fit: "life_fits df y_test"
  shows "\<exists>out clipped raw.
     generate_rul df y_test True threshold = Inr out \<and>
     generate_rul df y_test False threshold = Inr clipped \<and>
     generate_rul df y_test False 0 = Inr raw \<and>
     length out = length df \<and> length clipped = length df \<and> length raw = length df \<and>
     (\<forall>i<length df. \<exists>r0 c q.
        rul (raw ! i) = Finite (of_int r0) \<and>
        rul (clipped ! i) = Finite (of_int c) \<and>
        c = (if threshold > 0 \<and> r0 > threshold then threshold else r0) \<and>
        max_cycles (clipped ! i)
          = (if threshold > 0 \<and> max_cycles (raw ! i) > threshold then threshold + 1
             else max_cycles (raw ! i)) \<and>
        max_cycles (out ! i) = max_cycles (clipped ! i) \<and>
        rul (out ! i) = Finite q \<and>
        q = (of_int c + 1) / of_int (max_cycles (out ! i)) \<and>
        0 < q \<and> q \<le> 1)"
proof -
  from generate_rul_char [OF ok] obtain mx where
    run: "\<And>n T. generate_rul df y_test n T
            = Inr (map (\<lambda>r. label_row n T r (total_life mx (unit_nr r))) df)"
    and life: "\<And>j. j < length (unit_keys df) \<Longrightarrow> total_life mx (unit_keys df ! j)
           = (case y_test of
                None \<Rightarrow> Max (set (map time_cycles (engine_rows df (unit_keys df ! j))))
              | Some ys \<Rightarrow> wrap64 (Max (set (map time_cycles (engine_rows df (unit_keys df ! j)))) + ys ! j))"
    by blast
  let ?run = "\<lambda>n T. map (\<lambda>r. label_row n T r (total_life mx (unit_nr r))) df"
  have rows: "\<exists>r0 c q.
        rul (?run False 0 ! i) = Finite (of_int r0) \<and>
        rul (?run False threshold ! i) = Finite (of_int c) \<and>
        c = (if threshold > 0 \<and> r0 > threshold then threshold else r0) \<and>
        max_cycles (?run False threshold ! i)
          = (if threshold > 0 \<and> max_cycles (?run False 0 ! i) > threshold then threshold + 1
             else max_cycles (?run False 0 ! i)) \<and>
        max_cycles (?run True threshold ! i) = max_cycles (?run False threshold ! i) \<and>
        rul (?run True threshold ! i) = Finite q \<and>
        q = (of_int c + 1) / of_int (max_cycles (?run True threshold ! i)) \<and>
        0 < q \<and> q \<le> 1" if i: "i < length df" for i
  proof -
    let ?r = "df ! i" and ?m = "total_life mx (unit_nr (df ! i))"
    have r: "?r \<in> set df" using i by simp
    then obtain j where j: "j < length (unit_keys df)" "unit_keys df ! j = unit_nr ?r"
      using key_position by blast
    have t: "1 \<le> time_cycles ?r" using pos i by (simp add: list_all_length)
    have ge: "time_cycles ?r \<le> engine_life df y_test j"
      by (rule life_ge_cycle [OF ok nn r j])
    have lt: "engine_life df y_test j < 2 ^ 63"
      using fit j(1) by (simp add: life_fits_def list_all_iff)
    have "in_int64 (engine_life df y_test j)"
      using t ge lt by (simp add: in_int64_def)
    then have meq: "?m = engine_life df y_test j"
      using life [OF j(1)] life_no_wrap [of df y_test j] j(2) by simp
    have m: "time_cycles ?r \<le> ?m" and mf: "?m < 2 ^ 63"
      using ge lt meq by simp_all
    have w: "wrap64 (?m - time_cycles ?r) = ?m - time_cycles ?r"
      using t m mf by (intro wrap64_id) (simp add: in_int64_def)
    from label_row_normalized [OF t m mf, of threshold] obtain c q where
      cq: "rul (label_row False threshold ?r ?m) = Finite (of_int c)"
          "c = (if threshold > 0 \<and> ?m - time_cycles ?r > threshold then threshold
                else ?m - time_cycles ?r)"
          "max_cycles (label_row True threshold ?r ?m) = max_cycles (label_row False threshold ?r ?m)"
          "max_cycles (label_row True threshold ?r ?m)
             = (if threshold > 0 \<and> ?m > threshold then threshold + 1 else ?m)"
          "rul (label_row True threshold ?r ?m) = Finite q"
          "q = (of_int c + 1) / of_int (max_cycles (label_row True threshold ?r ?m))"
          "0 < q" "q \<le> 1"
      by blast
    have nth: "?run n T ! i = label_row n T ?r ?m" for n T
      using i by simp
    show ?thesis
      unfolding nth label_row_raw w
      apply (rule exI [of _ "?m - time_cycles ?r"])
      apply (rule exI [of _ c])
      apply (rule exI [of _ q])
      using cq by (simp only: simp_thms)
  qed
  show ?thesis
    apply (rule exI [of _ "?run True threshold"])
    apply (rule exI [of _ "?run False threshold"])
    apply (rule exI [of _ "?run False 0"])
    using rows by (simp add: run)
qed

text \<open>
  Claim C6 as stated fails where the int64 sum wraps: one engine of cycles 1 and 2 with
  remainder \<open>2^63 - 2\<close>, both inside the claim's hypotheses. \<open>max_cycles\<close> wraps to
  \<open>-2^63\<close> and the normalised label of the second line is \<open>(2^63 - 1) / (-2^63)\<close>, a
  negative number.
\<close>

theorem generate_rul_normalized_counterexample:
  "y_test_ok frame_two_cycles (Some [2 ^ 63 - 2]) \<and>
   remainders_nonneg (Some [2 ^ 63 - 2]) \<and>
   list_all (\<lambda>r. 1 \<le> time_cycles r) frame_two_cycles \<and>
   (\<exists>out. generate_rul frame_two_cycles (Some [2 ^ 63 - 2]) True 0 = Inr out \<and>
      max_cycles (out ! 1) = - (2 ^ 63) \<and>
      rul (out ! 1) = Finite ((2 ^ 63 - 1) / - (2 ^ 63)) \<and>
      ((2 ^ 63 - 1) / - (2 ^ 63) :: rat) < 0)"
  by (simp add: y_test_ok_def remainders_nonneg_def generate_rul_def add_y_test_def RUL_max_def
        unit_keys_def engine_rows_def frame_two_cycles_def merge_label_def label_row_def
        wrap64_def true_divide_def)

lemma frame_example_keys: "unit_keys frame_example = [1, 2]"
  by (simp add: unit_keys_def frame_example_def)

lemma frame_example_lives:
  "engine_life frame_example (Some [5, 7]) 0 = 7" "engine_life frame_example (Some [5, 7]) (Suc 0) = 8"
  by (simp_all add: engine_life_def remainder_of_def frame_example_keys)
     (simp_all add: engine_rows_def frame_example_def)

theorem generate_rul_unclipped_witness:
  "y_test_ok frame_example (Some [5, 7]) \<and> no_overflow frame_example (Some [5, 7]) \<and>
   (\<exists>out. generate_rul frame_example (Some [5, 7]) False 0 = Inr out \<and>
      length out = length frame_example \<and>
      (\<forall>i<length frame_example.
        unit_nr (out ! i) = unit_nr (frame_example ! i) \<and>
        time_cycles (out ! i) = time_cycles (frame_example ! i) \<and>
        cols (out ! i) = cols (frame_example ! i) \<and>
        (\<exists>q. rul (out ! i) = Finite q \<and>
             q + of_int (time_cycles (out ! i)) = of_int (max_cycles (out ! i))) \<and>
        (\<forall>j<length (unit_keys frame_example). unit_nr (frame_example ! i) = unit_keys frame_example ! j \<longrightarrow>
           max_cycles (out ! i)
             = Max (set (map time_cycles (engine_rows frame_example (unit_nr (frame_example ! i)))))
               + (case Some [5, 7] of None \<Rightarrow> 0 | Some ys \<Rightarrow> ys ! j))))"
proof -
  have h: "y_test_ok frame_example (Some [5, 7])"
    by (simp add: y_test_ok_def frame_example_keys)
  have f: "no_overflow frame_example (Some [5, 7])"
    by (simp add: no_overflow_def frame_example_keys upt_rec frame_example_lives in_int64_def)
       (simp add: engine_rows_def frame_example_def)
  from generate_rul_unclipped [OF h f] h f show ?thesis by simp
qed

theorem generate_rul_normalized_witness:
  "y_test_ok frame_example (Some [5, 7]) \<and> remainders_nonneg (Some [5, 7]) \<and>
   list_all (\<lambda>r. 1 \<le> time_cycles r) frame_example \<and> life_fits frame_example (Some [5, 7]) \<and>
   (\<exists>out clipped raw.
     generate_rul frame_example (Some [5, 7]) True 4 = Inr out \<and>
     generate_rul frame_example (Some [5, 7]) False 4 = Inr clipped \<and>
     generate_rul frame_example (Some [5, 7]) False 0 = Inr raw \<and>
     length out = length frame_example \<and> length clipped = length frame_example \<and>
     length raw = length frame_example \<and>
     (\<forall>i<length frame_example. \<exists>r0 c q.
        rul (raw ! i) = Finite (of_int r0) \<and>
        rul (clipped ! i) = Finite (of_int c) \<and>
        c = (if (4::int) > 0 \<and> r0 > 4 then 4 else r0) \<and>
        max_cycles (clipped ! i)
          = (if (4::int) > 0 \<and> max_cycles (raw ! i) > 4 then 4 + 1
             else max_cycles (raw ! i)) \<and>
        max_cycles (out ! i) = max_cycles (clipped ! i) \<and>
        rul (out ! i) = Finite q \<and>
        q = (of_int c + 1) / of_int (max_cycles (out ! i)) \<and>
        0 < q \<and> q \<le> 1))"
proof -
  have h1: "y_test_ok frame_example (Some [5, 7])"
    by (simp add: y_test_ok_def frame_example_keys)
  have h2: "remainders_nonneg (Some [5, 7])"
    by (simp add: remainders_nonneg_def)
  have h3: "list_all (\<lambda>r. 1 \<le> time_cycles r) frame_example"
    by (simp add: frame_example_def)
  have h4: "life_fits frame_example (Some [5, 7])"
    by (simp add: life_fits_def frame_example_keys upt_rec frame_example_lives)
  from generate_rul_normalized [OF h1 h2 h3 h4, of 4] h1 h2 h3 h4 show ?thesis by blast
qed

section \<open>Windowing: properties of generate_window_sample\<close>


lemma collect_map:
  "(\<And>j. j \<in> set js \<Longrightarrow> f j = Inr (g j)) \<Longrightarrow> collect f js = Inr (map g js)"
  by (induction js) auto

lemma window_at_inside:
  assumes "j + W < length engine"
  shows "window_at data engine W j
           = Inr (slice_from data j W, unit_nr (engine ! 0), rul (engine ! (j + W)))"
  using assms by (auto simp: window_at_def iloc_def)

lemma window_count_le:
  assumes "0 < s" "W \<le> L"
  shows "window_count W s L \<le> L - W"
proof -
  have nn: "0 \<le> int L - int W" using assms by simp
  have "(int L - int W) div s \<le> int L - int W"
    using assms nn by (metis div_by_1 int_one_le_iff_zero_less zdiv_mono2 zero_less_one)
  then show ?thesis using assms by (simp add: window_count_def)
qed

lemma window_count_one: "W \<le> L \<Longrightarrow> window_count W 1 L = L - W"
  by (simp add: window_count_def)

lemma sensor_values_slice:
  "slice_from (sensor_values sensors engine) j W = sensor_values sensors (slice_from engine j W)"
  by (simp add: slice_from_def sensor_values_def take_map drop_map)

lemma engine_windows_char:
  assumes s: "0 < s" and W: "W \<le> length engine"
  shows "engine_windows sensors W s engine
     = Inr (map (\<lambda>j. sensor_values sensors (slice_from engine j W)) [0 ..< window_count W s (length engine)],
            map (\<lambda>j. unit_nr (engine ! 0)) [0 ..< window_count W s (length engine)],
            map (\<lambda>j. rul (engine ! (j + W))) [0 ..< window_count W s (length engine)])"
proof -
  let ?n = "window_count W s (length engine)"
  let ?data = "sensor_values sensors engine"
  have "collect (window_at ?data engine W) [0 ..< ?n]
          = Inr (map (\<lambda>j. (slice_from ?data j W, unit_nr (engine ! 0), rul (engine ! (j + W)))) [0 ..< ?n])"
  proof (rule collect_map)
    fix j assume "j \<in> set [0 ..< ?n]"
    then have "j < length engine - W" using window_count_le [OF s W] by simp
    then have "j + W < length engine" by simp
    then show "window_at ?data engine W j
                 = Inr (slice_from ?data j W, unit_nr (engine ! 0), rul (engine ! (j + W)))"
      by (rule window_at_inside)
  qed
  moreover have "length ?data = length engine" by (simp add: sensor_values_def)
  ultimately show ?thesis
    using s by (simp add: engine_windows_def sensor_values_slice comp_def)
qed

lemma engines_loop_char:
  assumes s: "0 < s"
  shows "engines_loop sensors W s gs st
     = Inr (st\<lparr>w_warned := w_warned st
                  @ map (\<lambda>(k, e). (k, length e, W)) (filter (\<lambda>(k, e). length e < W) gs),
               w_result := w_result st
                  @ map (\<lambda>(k, e). map (\<lambda>j. sensor_values sensors (slice_from e j W))
                                     [0 ..< window_count W s (length e)])
                      (filter (\<lambda>(k, e). \<not> length e < W) gs),
               w_engine_ids := w_engine_ids st
                  @ map (\<lambda>(k, e). map (\<lambda>j. unit_nr (e ! 0)) [0 ..< window_count W s (length e)])
                      (filter (\<lambda>(k, e). \<not> length e < W) gs),
               w_labels := w_labels st
                  @ map (\<lambda>(k, e). map (\<lambda>j. rul (e ! (j + W))) [0 ..< window_count W s (length e)])
                      (filter (\<lambda>(k, e). \<not> length e < W) gs)\<rparr>)"
proof (induction gs arbitrary: st)
  case Nil
  show ?case by simp
next
  case (Cons g gs)
  obtain k e where g: "g = (k, e)" by (cases g)
  show ?case
  proof (cases "length e < W")
    case True
    then show ?thesis by (simp add: g Cons.IH)
  next
    case False
    then have "W \<le> length e" by simp
    from engine_windows_char [OF s this] False show ?thesis
      by (simp add: g Cons.IH)
  qed
qed

lemma concat_block:
  assumes g: "g < length gs" and P: "P (gs ! g)" and j: "j < length (f (gs ! g))"
  shows "concat (map f (filter P gs)) ! (length (concat (map f (filter P (take g gs)))) + j)
           = f (gs ! g) ! j"
proof -
  have "gs = take g gs @ gs ! g # drop (Suc g) gs"
    using g by (simp add: id_take_nth_drop)
  then have "concat (map f (filter P gs))
      = concat (map f (filter P (take g gs))) @ f (gs ! g) @ concat (map f (filter P (drop (Suc g) gs)))"
    using P by (metis (no_types, lifting) concat.simps(2) concat_append filter.simps(2) filter_append list.simps(9) map_append)
  then show ?thesis using j by (simp add: nth_append)
qed

lemma length_concat_filter:
  "length (concat (map f (filter P gs))) = sum_list (map (\<lambda>x. if P x then length (f x) else 0) gs)"
  by (induction gs) auto

lemma generate_window_sample_parts:
  assumes s: "0 < s" and ret: "generate_window_sample df W s sensors = Inr (d, i, l, w)"
  shows "d = concat (map (\<lambda>(k, e). map (\<lambda>j. sensor_values sensors (slice_from e j W))
                                     [0 ..< window_count W s (length e)])
                      (filter (\<lambda>(k, e). \<not> length e < W) (groupby df)))"
    and "i = concat (map (\<lambda>(k, e). map (\<lambda>j. unit_nr (e ! 0)) [0 ..< window_count W s (length e)])
                      (filter (\<lambda>(k, e). \<not> length e < W) (groupby df)))"
    and "l = concat (map (\<lambda>(k, e). map (\<lambda>j. rul (e ! (j + W))) [0 ..< window_count W s (length e)])
                      (filter (\<lambda>(k, e). \<not> length e < W) (groupby df)))"
    and "w = map (\<lambda>(k, e). (k, length e, W)) (filter (\<lambda>(k, e). length e < W) (groupby df))"
  using ret unfolding generate_window_sample_def engines_loop_char [OF s]
  by (auto simp: np_concatenate_def np_concatenate_windows_def split: if_splits)

lemma emitted_eq:
  "emitted W s gs
     = length (concat (map (\<lambda>(k, e). map (f e) [0 ..< window_count W s (length e)])
                        (filter (\<lambda>(k, e). \<not> length e < W) gs)))"
  unfolding length_concat_filter emitted_def
  by (rule arg_cong [where f = sum_list]) (auto simp: case_prod_beta)

lemma groupby_nth:
  assumes "g < length (groupby df)" "groupby df ! g = (k, e)"
  shows "e = engine_rows df k" "k \<in> unit_nr ` set df"
proof -
  have len: "g < length (unit_keys df)"
    using assms(1) by (simp add: groupby_def)
  then have "groupby df ! g = (unit_keys df ! g, engine_rows df (unit_keys df ! g))"
    by (simp add: groupby_def)
  with assms(2) have k: "k = unit_keys df ! g" and e: "e = engine_rows df (unit_keys df ! g)"
    by auto
  show "e = engine_rows df k" using k e by simp
  have "unit_keys df ! g \<in> set (unit_keys df)"
    using len by simp
  then show "k \<in> unit_nr ` set df"
    using k by (simp add: unit_keys_def)
qed

lemma engine_rows_unit: "j < length (engine_rows df k) \<Longrightarrow> unit_nr (engine_rows df k ! j) = k"
  using nth_mem [of j "engine_rows df k"] by (simp add: engine_rows_def)

lemma generate_window_sample_block:
  assumes s: "0 < s" and ret: "generate_window_sample df W s sensors = Inr (d, i, l, w)"
    and g: "g < length (groupby df)" "groupby df ! g = (k, e)"
    and W: "W \<le> length e" and jlt: "j < window_count W s (length e)"
  shows "d ! (emitted W s (take g (groupby df)) + j) = sensor_values sensors (slice_from e j W)"
    and "i ! (emitted W s (take g (groupby df)) + j) = k"
    and "l ! (emitted W s (take g (groupby df)) + j) = rul (e ! (j + W))"
proof -
  let ?P = "\<lambda>(k, e::labeled list). \<not> length e < W"
  note parts = generate_window_sample_parts [OF s ret]
  have P: "?P (groupby df ! g)" using g W by simp
  have e0: "unit_nr (e ! 0) = k"
  proof -
    have "0 < length e" using jlt window_count_le [OF s W] by linarith
    then show ?thesis using groupby_nth(1) [OF g] engine_rows_unit [of 0 df k] by simp
  qed
  note blk = concat_block [where P = ?P and gs = "groupby df" and g = g and j = j, OF g(1) P]
  show "d ! (emitted W s (take g (groupby df)) + j) = sensor_values sensors (slice_from e j W)"
    unfolding parts(1) emitted_eq [where f = "\<lambda>e j. sensor_values sensors (slice_from e j W)"]
    using jlt g
    by (subst blk [where f = "\<lambda>(k, e). map (\<lambda>j. sensor_values sensors (slice_from e j W))
                                     [0 ..< window_count W s (length e)]"]) simp_all
  show "i ! (emitted W s (take g (groupby df)) + j) = k"
    unfolding parts(2) emitted_eq [where f = "\<lambda>e j. unit_nr (e ! 0)"]
    using jlt g e0
    by (subst blk [where f = "\<lambda>(k, e). map (\<lambda>j. unit_nr (e ! 0))
                                     [0 ..< window_count W s (length e)]"]) simp_all
  show "l ! (emitted W s (take g (groupby df)) + j) = rul (e ! (j + W))"
    unfolding parts(3) emitted_eq [where f = "\<lambda>e j. rul (e ! (j + W))"]
    using jlt g
    by (subst blk [where f = "\<lambda>(k, e). map (\<lambda>j. rul (e ! (j + W)))
                                     [0 ..< window_count W s (length e)]"]) simp_all
qed

lemma generate_window_sample_lengths:
  assumes s: "0 < s" and ret: "generate_window_sample df W s sensors = Inr (d, i, l, w)"
  shows "length d = emitted W s (groupby df)" "length i = emitted W s (groupby df)"
    "length l = emitted W s (groupby df)"
  unfolding generate_window_sample_parts [OF s ret]
  by (simp_all only: emitted_eq [symmetric])

text \<open>The equations that evaluate the windowing on a concrete frame.\<close>

lemmas window_eval = generate_window_sample_def groupby_def unit_keys_def engine_of_def line_def
  engine_rows_def engine_windows_def sensor_values_def window_at_def iloc_def slice_from_def
  np_concatenate_def np_concatenate_windows_def window_count_def upt_rec


text \<open>
  Claim C1 (fails on the code for \<open>slide_step > 1\<close>). One engine of six lines, windows of
  two lines, \<open>slide_step = 2\<close>: the function emits two windows, and the second one holds
  the lines at offsets 1 and 2 (sensor readings 2 and 3), not the lines at offsets
  \<open>1 * slide_step\<close> and \<open>1 * slide_step + 1\<close> (readings 3 and 4). The window index is
  never multiplied by \<open>slide_step\<close>; the step only divides the number of windows.
\<close>

theorem slide_step_two_windows:
  "generate_window_sample (engine_of 1 6) 2 2 [''s_2'']
     = Inr ([[[1], [2]], [[2], [3]]], [1, 1], [Finite 3, Finite 2], [])
   \<and> sensor_values [''s_2''] (slice_from (engine_of 1 6) 1 2) = [[2], [3]]
   \<and> sensor_values [''s_2''] (slice_from (engine_of 1 6) (1 * 2) 2) = [[3], [4]]"
  by (simp add: window_eval)

text \<open>
  Claim C2 (fails on the code). Two engines of three and two lines, windows of two lines,
  \<open>slide_step = 1\<close>: the count formula gives one window for the first engine and none
  for the second, which is not shorter than the window and so is not dropped; its empty
  list of windows is stored beside the first engine's windows and \<open>np.concatenate\<close>
  raises. With the second engine one line shorter it is dropped with a warning and the
  first engine's window is returned. A frame whose only engine is dropped leaves nothing
  to concatenate, and \<open>np.concatenate\<close> raises as well.
\<close>

theorem zero_window_engine_raises:
  "generate_window_sample (engine_of 1 3 @ engine_of 2 2) 2 1 [''s_2''] = Inl Dimension_mismatch
   \<and> emitted 2 1 (groupby (engine_of 1 3 @ engine_of 2 2)) = 1
   \<and> generate_window_sample (engine_of 1 3 @ engine_of 2 1) 2 1 [''s_2'']
       = Inr ([[[1], [2]]], [1], [Finite 0], [(2, 1, 2)])
   \<and> generate_window_sample (engine_of 2 1) 2 1 [''s_2''] = Inl Need_at_least_one_array"
  by (simp add: window_eval emitted_def)

text \<open>
  What the loop does for one engine when \<open>slide_step = 1\<close>. For an engine of the frame
  whose trajectory has \<open>L \<ge> W\<close> lines, the loop body builds exactly \<open>L - W\<close> windows;
  window \<open>j\<close> holds the lines at offsets \<open>[j, j + W)\<close>, carries the engine's id, and its
  label is the \<open>rul\<close> of the line at offset \<open>j + W\<close>, one past the window's last line. If
  the function returns, these windows, ids and labels stand in its three arrays as one
  block, after the windows of the engines before. (It does not always return, see below.)
\<close>

lemma windows_step_one_on_return:
  assumes g: "g < length (groupby df)" "groupby df ! g = (k, engine)"
    and W: "W \<le> length engine"
  shows "(\<exists>s e r. engine_windows sensors W 1 engine = Inr (s, e, r) \<and>
            length s = length engine - W \<and> length e = length engine - W \<and>
            length r = length engine - W \<and>
            (\<forall>j<length engine - W.
               s ! j = sensor_values sensors (slice_from engine j W) \<and>
               e ! j = k \<and>
               r ! j = rul (engine ! (j + W)))) \<and>
         (\<forall>d i l w. generate_window_sample df W 1 sensors = Inr (d, i, l, w) \<longrightarrow>
            (\<forall>j<length engine - W.
               d ! (emitted W 1 (take g (groupby df)) + j)
                  = sensor_values sensors (slice_from engine j W) \<and>
               i ! (emitted W 1 (take g (groupby df)) + j) = k \<and>
               l ! (emitted W 1 (take g (groupby df)) + j) = rul (engine ! (j + W))))"
proof (intro conjI allI impI)
  have one: "(0::int) < 1" by simp
  have n: "window_count W 1 (length engine) = length engine - W"
    using W by (rule window_count_one)
  have e0: "unit_nr (engine ! 0) = k" if "0 < length engine - W"
  proof -
    have "0 < length engine" using that by linarith
    then show ?thesis using groupby_nth(1) [OF g] engine_rows_unit [of 0 df k] by simp
  qed
  show "\<exists>s e r. engine_windows sensors W 1 engine = Inr (s, e, r) \<and>
            length s = length engine - W \<and> length e = length engine - W \<and>
            length r = length engine - W \<and>
            (\<forall>j<length engine - W.
               s ! j = sensor_values sensors (slice_from engine j W) \<and>
               e ! j = k \<and>
               r ! j = rul (engine ! (j + W)))"
    unfolding engine_windows_char [OF one W] n using e0 by auto
next
  fix d i l w j
  assume ret: "generate_window_sample df W 1 sensors = Inr (d, i, l, w)"
    and j: "j < length engine - W"
  have one: "(0::int) < 1" by simp
  have jn: "j < window_count W 1 (length engine)"
    using j W by (simp add: window_count_one)
  note blk = generate_window_sample_block [OF one ret g W jn]
  show "d ! (emitted W 1 (take g (groupby df)) + j) = sensor_values sensors (slice_from engine j W)"
    by (rule blk(1))
  show "i ! (emitted W 1 (take g (groupby df)) + j) = k"
    by (rule blk(2))
  show "l ! (emitted W 1 (take g (groupby df)) + j) = rul (engine ! (j + W))"
    by (rule blk(3))
qed

lemma windows_step_one_on_return_example:
  "0 < length (groupby (engine_of 1 4 @ engine_of 2 1)) \<and>
   groupby (engine_of 1 4 @ engine_of 2 1) ! 0 = (1, engine_of 1 4) \<and>
   2 \<le> length (engine_of 1 4) \<and>
   engine_windows [''s_2''] 2 1 (engine_of 1 4)
     = Inr ([[[1], [2]], [[2], [3]]], [1, 1], [Finite 1, Finite 0]) \<and>
   generate_window_sample (engine_of 1 4 @ engine_of 2 1) 2 1 [''s_2'']
     = Inr ([[[1], [2]], [[2], [3]]], [1, 1], [Finite 1, Finite 0], [(2, 1, 2)]) \<and>
   [Finite 1, Finite 0] ! (emitted 2 1 (take 0 (groupby (engine_of 1 4 @ engine_of 2 1))) + 1)
     = rul (engine_of 1 4 ! (1 + 2))"
proof -
  let ?df = "engine_of 1 4 @ engine_of 2 1"
  have h1: "0 < length (groupby ?df)" by (simp add: window_eval)
  have h2: "groupby ?df ! 0 = (1, engine_of 1 4)" by (simp add: window_eval)
  have h3: "2 \<le> length (engine_of 1 4)" by (simp add: engine_of_def)
  have ret: "generate_window_sample ?df 2 1 [''s_2'']
     = Inr ([[[1], [2]], [[2], [3]]], [1, 1], [Finite 1, Finite 0], [(2, 1, 2)])"
    by (simp add: window_eval)
  have ew: "engine_windows [''s_2''] 2 1 (engine_of 1 4)
     = Inr ([[[1], [2]], [[2], [3]]], [1, 1], [Finite 1, Finite 0])"
    by (simp add: window_eval)
  have j: "1 < length (engine_of 1 4) - 2" by (simp add: engine_of_def)
  from windows_step_one_on_return [OF h1 h2 h3, of "[''s_2'']"] ret j
  have "[Finite 1, Finite 0] ! (emitted 2 1 (take 0 (groupby ?df)) + 1)
          = rul (engine_of 1 4 ! (1 + 2))"
    by blast
  with h1 h2 h3 ew ret show ?thesis by simp
qed

text \<open>
  Claim C3 (fails on the code). Two engines of three and two lines, windows of two lines,
  \<open>slide_step = 1\<close>. The first engine has \<open>L = 3 \<ge> W = 2\<close> and the loop body builds its
  \<open>L - W = 1\<close> window, labelled with the \<open>rul\<close> of the line at offset 2; but the second
  engine, as long as the window, leaves an empty list beside it and \<open>np.concatenate\<close>
  raises, so the function emits no window for the first engine.
\<close>

theorem windows_step_one_raises:
  "groupby (engine_of 1 3 @ engine_of 2 2) ! 0 = (1, engine_of 1 3) \<and>
   2 \<le> length (engine_of 1 3) \<and>
   engine_windows [''s_2''] 2 1 (engine_of 1 3) = Inr ([[[1], [2]]], [1], [Finite 0]) \<and>
   rul (engine_of 1 3 ! (0 + 2)) = Finite 0 \<and>
   generate_window_sample (engine_of 1 3 @ engine_of 2 2) 2 1 [''s_2'']
     = Inl Dimension_mismatch"
  by (simp add: window_eval)
section \<open>Train/validation split: properties of split_val_set\<close>

lemma valid_draw_props:
  assumes "valid_draw a n drawn"
  shows "int (length drawn) = n" "distinct drawn" "set drawn \<subseteq> set a"
  using assms by (auto simp: valid_draw_def list_all_iff)

lemma split_loop_char:
  "split_loop df vi js (tr, va)
     = (tr @ map (engine_rows df) (filter (\<lambda>i. i \<notin> set vi) js),
        va @ map (engine_rows df) (filter (\<lambda>i. i \<in> set vi) js))"
  by (induction js arbitrary: tr va) (auto simp: Let_def)

lemma py_range_props:
  "distinct (py_range a b)" "length (py_range a b) = b - a"
  "set (py_range a b) = int ` {a ..< b}"
  by (simp_all add: py_range_def distinct_map)

lemma drawn_filter_length:
  assumes "distinct js" "distinct drawn" "set drawn \<subseteq> set js"
  shows "length (filter (\<lambda>i. i \<in> set drawn) js) = length drawn"
proof -
  have "distinct (filter (\<lambda>i. i \<in> set drawn) js)"
    using assms(1) by simp
  then have "length (filter (\<lambda>i. i \<in> set drawn) js) = card (set (filter (\<lambda>i. i \<in> set drawn) js))"
    by (rule distinct_card [symmetric])
  also have "set (filter (\<lambda>i. i \<in> set drawn) js) = set drawn"
    using assms(3) by auto
  also have "card (set drawn) = length drawn"
    using assms(2) by (simp add: distinct_card)
  finally show ?thesis .
qed

lemma undrawn_filter_length:
  assumes "distinct js" "distinct drawn" "set drawn \<subseteq> set js"
  shows "length (filter (\<lambda>i. i \<notin> set drawn) js) = length js - length drawn"
proof -
  have "length (filter (\<lambda>i. i \<in> set drawn) js) + length (filter (\<lambda>i. i \<notin> set drawn) js) = length js"
    using sum_length_filter_compl [of "\<lambda>i. i \<in> set drawn" js] by simp
  with drawn_filter_length [OF assms] show ?thesis by simp
qed

lemma split_val_set_char:
  assumes vc: "val_count (length (groupby df)) val_size = Inr k"
    and v: "valid_draw (py_range 1 (length (groupby df) + 1)) k drawn"
  shows "split_val_set df val_size drawn =
     (if drawn = [] \<or> length drawn = length (groupby df) then Inl No_objects_to_concatenate
      else Inr (concat (map (engine_rows df)
                         (filter (\<lambda>i. i \<notin> set drawn) (py_range 1 (length (groupby df) + 1)))),
                concat (map (engine_rows df)
                         (filter (\<lambda>i. i \<in> set drawn) (py_range 1 (length (groupby df) + 1))))))"
proof -
  let ?n = "length (groupby df)"
  let ?js = "py_range 1 (?n + 1)"
  note d = valid_draw_props [OF v]
  have lenjs: "length ?js = ?n" by (simp add: py_range_props)
  have le: "length drawn \<le> ?n"
    using d(2,3) py_range_props(1) [of 1 "?n + 1"] lenjs
    by (metis card_mono distinct_card List.finite_set)
  have k: "k = int (length drawn)" using d(1) by simp
  have choice: "choice_no_replace ?js k drawn = Inr drawn"
    using le lenjs unfolding k choice_no_replace_def by auto
  have lv: "length (filter (\<lambda>i. i \<in> set drawn) ?js) = length drawn"
    using drawn_filter_length [OF py_range_props(1) d(2,3)] .
  have lt: "length (filter (\<lambda>i. i \<notin> set drawn) ?js) = ?n - length drawn"
    using undrawn_filter_length [OF py_range_props(1) d(2,3)] lenjs by simp
  have ev: "filter (\<lambda>i. i \<in> set drawn) ?js = [] \<longleftrightarrow> drawn = []"
    using lv by (metis length_0_conv)
  have et: "filter (\<lambda>i. i \<notin> set drawn) ?js = [] \<longleftrightarrow> length drawn = ?n"
    using lt le by (metis diff_is_0_eq le_antisym length_0_conv order_refl)
  show ?thesis
    unfolding split_val_set_def Let_def vc sum.case choice split_loop_char
    using ev et by (auto simp: pd_concat_def)
qed

lemma mset_engine_rows:
  assumes "distinct js"
  shows "mset (concat (map (engine_rows df) js)) = mset (filter (\<lambda>r. unit_nr r \<in> set js) df)"
  using assms
proof (induction js)
  case Nil
  show ?case by simp
next
  case (Cons i js)
  have "mset (filter (\<lambda>r. unit_nr r = i) df) + mset (filter (\<lambda>r. unit_nr r \<in> set js) df)
          = mset (filter (\<lambda>r. unit_nr r = i \<or> unit_nr r \<in> set js) df)"
    using Cons.prems by (induction df) auto
  with Cons show ?case by (simp add: engine_rows_def)
qed

lemma set_engine_rows:
  "unit_nr ` set (concat (map (engine_rows df) js)) = set js \<inter> unit_nr ` set df"
  by (auto simp: engine_rows_def)

lemma dense_keys:
  assumes "dense df"
  shows "set (py_range 1 (length (groupby df) + 1)) = unit_nr ` set df"
proof -
  have "length (groupby df) = length (unit_keys df)" by (simp add: groupby_def)
  with assms have "py_range 1 (length (groupby df) + 1) = unit_keys df"
    by (simp add: dense_def)
  then show ?thesis by (simp add: unit_keys_set)
qed

text \<open>
  Claim C4, as amended. For a train set whose engines are numbered densely \<open>1..N\<close>, with
  \<open>k = int(N * val_size)\<close> (the float product, truncated toward zero) and a draw of \<open>k\<close>
  different engine ids, \<open>0 < k < N\<close>: \<open>split_val_set\<close> returns two frames that together
  hold every line of the train set exactly once, the validation frame holds exactly the
  drawn engines and the train frame the others, no engine is in both, and the number of
  validation engines is \<open>k\<close>: the product truncated, not rounded to the nearest integer.
\<close>

theorem split_val_set_partition:
  assumes dense: "dense df"
    and N: "N = length (groupby df)" and k: "val_count N val_size = Inr k"
    and v: "valid_draw (py_range 1 (N + 1)) k drawn"
    and inside: "0 < k" "k < int N"
  shows "\<exists>train_data val_data.
           split_val_set df val_size drawn = Inr (train_data, val_data) \<and>
           mset train_data + mset val_data = mset df \<and>
           length train_data + length val_data = length df \<and>
           unit_nr ` set val_data = set drawn \<and>
           unit_nr ` set train_data = unit_nr ` set df - set drawn \<and>
           unit_nr ` set train_data \<inter> unit_nr ` set val_data = {} \<and>
           int (card (unit_nr ` set val_data)) = k"
proof -
  let ?js = "py_range 1 (length (groupby df) + 1)"
  let ?tr = "concat (map (engine_rows df) (filter (\<lambda>i. i \<notin> set drawn) ?js))"
  let ?va = "concat (map (engine_rows df) (filter (\<lambda>i. i \<in> set drawn) ?js))"
  have v': "valid_draw ?js k drawn"
    using v N by simp
  have k': "val_count (length (groupby df)) val_size = Inr k"
    using k N by simp
  note d = valid_draw_props [OF v']
  have keys: "set ?js = unit_nr ` set df" using dense by (rule dense_keys)
  have len: "int (length drawn) = k" using d(1) by simp
  have "drawn \<noteq> []" "length drawn \<noteq> length (groupby df)"
    using inside len N by auto
  then have run: "split_val_set df val_size drawn = Inr (?tr, ?va)"
    by (simp add: split_val_set_char [OF k' v'])
  have dj: "distinct ?js" by (rule py_range_props)
  have m: "mset ?tr + mset ?va = mset df"
  proof -
    have f1: "filter (\<lambda>r. unit_nr r \<in> set (filter (\<lambda>i. i \<notin> set drawn) ?js)) df
                = filter (\<lambda>r. unit_nr r \<notin> set drawn) df"
      using keys by (intro filter_cong) auto
    have f2: "filter (\<lambda>r. unit_nr r \<in> set (filter (\<lambda>i. i \<in> set drawn) ?js)) df
                = filter (\<lambda>r. unit_nr r \<in> set drawn) df"
      using keys by (intro filter_cong) auto
    have "mset ?tr = mset (filter (\<lambda>r. unit_nr r \<notin> set drawn) df)"
      using dj by (simp only: mset_engine_rows distinct_filter f1)
    moreover have "mset ?va = mset (filter (\<lambda>r. unit_nr r \<in> set drawn) df)"
      using dj by (simp only: mset_engine_rows distinct_filter f2)
    ultimately show ?thesis by (simp add: union_commute)
  qed
  have l: "length ?tr + length ?va = length df"
    using arg_cong [OF m, of size] by simp
  have sv: "unit_nr ` set ?va = set drawn"
    unfolding set_engine_rows using d(3) keys by auto
  have st: "unit_nr ` set ?tr = unit_nr ` set df - set drawn"
    unfolding set_engine_rows using keys by auto
  have c: "int (card (unit_nr ` set ?va)) = k"
    unfolding sv using d(2) len by (simp add: distinct_card)
  have i: "unit_nr ` set ?tr \<inter> unit_nr ` set ?va = {}"
    unfolding sv st by blast
  show ?thesis
    apply (rule exI [of _ ?tr])
    apply (rule exI [of _ ?va])
    apply (intro conjI)
          apply (rule run)
         apply (rule m)
        apply (rule l)
       apply (rule sv)
      apply (rule st)
     apply (rule i)
    apply (rule c)
    done
qed


lemma split_val_set_bad_count:
  assumes "N = length (groupby df)" "val_count N val_size = Inr k" "k < 0 \<or> int N < k"
  shows "\<exists>e. split_val_set df val_size drawn = Inl e"
  using assms by (auto simp: split_val_set_def Let_def choice_no_replace_def py_range_props)

lemma concat_engine_rows_nonempty:
  assumes "i \<in> set js" "i \<in> unit_nr ` set df"
  shows "concat (map (engine_rows df) js) \<noteq> []"
proof -
  from assms(2) obtain r where "r \<in> set df" "unit_nr r = i" by auto
  then have "r \<in> set (engine_rows df i)" by (simp add: engine_rows_def)
  with assms(1) have "r \<in> set (concat (map (engine_rows df) js))" by auto
  then show ?thesis by (metis empty_iff empty_set)
qed

text \<open>
  Claim C10, as amended. With \<open>N\<close> engines and \<open>k = int(N * val_size)\<close> (the float product,
  truncated): when \<open>k\<close> is negative or exceeds \<open>N\<close> the draw itself raises; for a draw of
  \<open>k\<close> different ids of \<open>1..N\<close>, \<open>k = 0\<close> or \<open>k = N\<close> leaves one of the two lists of
  frames empty and \<open>pd.concat\<close> raises, the function returns exactly when \<open>0 < k < N\<close>,
  and on a densely numbered train set neither returned frame is empty.
\<close>

theorem split_val_set_no_empty_partition:
  assumes N: "N = length (groupby df)" and k: "val_count N val_size = Inr k"
  shows "(k < 0 \<or> int N < k \<longrightarrow> (\<exists>e. split_val_set df val_size drawn = Inl e)) \<and>
         (valid_draw (py_range 1 (N + 1)) k drawn \<longrightarrow>
            (k = 0 \<or> k = int N \<longrightarrow>
               split_val_set df val_size drawn = Inl No_objects_to_concatenate) \<and>
            ((\<exists>p. split_val_set df val_size drawn = Inr p) \<longleftrightarrow> 0 < k \<and> k < int N) \<and>
            (\<forall>train_data val_data.
               dense df \<and> split_val_set df val_size drawn = Inr (train_data, val_data)
                 \<longrightarrow> train_data \<noteq> [] \<and> val_data \<noteq> []))"
proof (intro conjI impI allI)
  assume "k < 0 \<or> int N < k"
  then show "\<exists>e. split_val_set df val_size drawn = Inl e"
    using split_val_set_bad_count [OF N k] by blast
next
  assume v: "valid_draw (py_range 1 (N + 1)) k drawn"
  then have v': "valid_draw (py_range 1 (length (groupby df) + 1)) k drawn"
    using N by simp
  have k': "val_count (length (groupby df)) val_size = Inr k"
    using k N by simp
  note d = valid_draw_props [OF v]
  note char = split_val_set_char [OF k' v']
  have le: "length drawn \<le> N"
    using d(2,3) py_range_props(1,2) [of 1 "N + 1"]
    by (metis card_mono distinct_card List.finite_set add_diff_cancel_right')
  { assume "k = 0 \<or> k = int N"
    then have "drawn = [] \<or> length drawn = length (groupby df)"
      using d(1) N by auto
    then show "split_val_set df val_size drawn = Inl No_objects_to_concatenate"
      unfolding char by simp }
  show "(\<exists>p. split_val_set df val_size drawn = Inr p) \<longleftrightarrow> 0 < k \<and> k < int N"
  proof -
    have "(drawn = [] \<or> length drawn = length (groupby df)) \<longleftrightarrow> \<not> (0 < k \<and> k < int N)"
      using d(1) le N by auto
    then show ?thesis unfolding char by auto
  qed
  { fix train_data val_data
    assume a: "dense df \<and> split_val_set df val_size drawn = Inr (train_data, val_data)"
    let ?js = "py_range 1 (length (groupby df) + 1)"
    from a have ne: "drawn \<noteq> []" "length drawn \<noteq> length (groupby df)"
      and tr: "train_data = concat (map (engine_rows df) (filter (\<lambda>i. i \<notin> set drawn) ?js))"
      and va: "val_data = concat (map (engine_rows df) (filter (\<lambda>i. i \<in> set drawn) ?js))"
      unfolding char by (auto split: if_splits)
    have keys: "set ?js = unit_nr ` set df" using a dense_keys by blast
    have lt: "length (filter (\<lambda>i. i \<notin> set drawn) ?js) = length ?js - length drawn"
      using undrawn_filter_length [OF py_range_props(1)] d(2,3) N by blast
    have "length ?js - length drawn \<noteq> 0"
      using ne(2) le N by (simp add: py_range_props)
    with lt have "filter (\<lambda>i. i \<notin> set drawn) ?js \<noteq> []" by auto
    then obtain i where i: "i \<in> set (filter (\<lambda>i. i \<notin> set drawn) ?js)"
      by (meson last_in_set)
    then have "i \<in> unit_nr ` set df" using keys by auto
    from concat_engine_rows_nonempty [OF i this] have t: "train_data \<noteq> []" using tr by simp
    from ne(1) obtain x where x: "x \<in> set drawn" by (meson last_in_set)
    then have xj: "x \<in> set ?js" using d(3) N by auto
    then have xf: "x \<in> set (filter (\<lambda>i. i \<in> set drawn) ?js)" using x by simp
    have xu: "x \<in> unit_nr ` set df" using xj keys by auto
    have "val_data \<noteq> []"
      unfolding va by (rule concat_engine_rows_nonempty [OF xf xu])
    with t show "train_data \<noteq> []" "val_data \<noteq> []" by simp_all }
qed


text \<open>
  The count on concrete inputs. The product is rounded before it is truncated: the exact
  product of 5 and the double \<open>0.6\<close> is below 3 and the float product is 3; the exact
  product of 3 and the double nearest to 1/3 is below 1 and the float product is 1.
\<close>

lemma val_count_5_three_fifths: "val_count 5 (literal (3 / 5)) = Inr 3"
  by code_simp

lemma val_count_3_third: "val_count 3 (literal (1 / 3)) = Inr 1"
  by code_simp

lemma val_count_4_seven_sixteenths: "val_count 4 (7 / 16) = Inr 1"
  by code_simp

lemma val_count_4_fifth: "val_count 4 (literal (1 / 5)) = Inr 0"
  by code_simp

lemma val_count_3_two_fifths: "val_count 3 (literal (2 / 5)) = Inr 1"
  by code_simp

lemma py_round_7_4: "py_round (4 * (7 / 16)) = 2"
  by code_simp

text \<open>The equations that evaluate the split on a concrete frame.\<close>

lemmas split_eval = groupby_def unit_keys_def engine_rows_def engine_of_def
  line_def choice_no_replace_def py_range_def pd_concat_def upt_rec four_engines_def
  sparse_engines_def

lemma four_engines_groups: "length (groupby four_engines) = 4"
  by (simp add: split_eval)

lemma sparse_engines_groups: "length (groupby sparse_engines) = 3"
  by (simp add: split_eval)

lemma split_four_engines:
  "split_val_set four_engines (7 / 16) [2]
     = Inr (engine_of 1 2 @ engine_of 3 1 @ engine_of 4 1, engine_of 2 1)"
  by (simp only: split_val_set_def Let_def four_engines_groups val_count_4_seven_sixteenths
        sum.case)
     (simp add: split_eval)

lemma split_four_engines_none:
  "split_val_set four_engines (literal (1 / 5)) [] = Inl No_objects_to_concatenate"
  by (simp only: split_val_set_def Let_def four_engines_groups val_count_4_fifth sum.case)
     (simp add: split_eval)

lemma split_sparse_engines:
  "split_val_set sparse_engines (literal (2 / 5)) [2] = Inr ([], [])"
  by (simp only: split_val_set_def Let_def sparse_engines_groups val_count_3_two_fifths sum.case)
     (simp add: split_eval)

text \<open>
  Claim C4 as stated fails: four engines and \<open>val_size = 7/16\<close> give \<open>N * val_size = 1.75\<close>;
  the function draws \<open>int(1.75) = 1\<close> engine and returns one validation engine, where
  \<open>round(1.75) = 2\<close>.
\<close>

theorem split_val_set_count_counterexample:
  "dense four_engines \<and> length (groupby four_engines) = 4 \<and>
   val_count 4 (7 / 16) = Inr 1 \<and>
   valid_draw (py_range 1 (4 + 1)) 1 [2] \<and>
   split_val_set four_engines (7 / 16) [2]
     = Inr (engine_of 1 2 @ engine_of 3 1 @ engine_of 4 1, engine_of 2 1) \<and>
   card (unit_nr ` set (engine_of 2 1)) = 1 \<and>
   py_round (4 * (7 / 16)) = 2"
proof -
  have "dense four_engines" by (simp add: split_eval dense_def)
  moreover have "valid_draw (py_range 1 (4 + 1)) 1 [2]"
    by (simp add: valid_draw_def split_eval)
  moreover have "card (unit_nr ` set (engine_of 2 1)) = 1"
    by (simp add: split_eval)
  ultimately show ?thesis
    using four_engines_groups val_count_4_seven_sixteenths split_four_engines py_round_7_4
    by (intro conjI)
qed

theorem split_val_set_partition_witness:
  "dense four_engines \<and> 4 = length (groupby four_engines) \<and>
   val_count 4 (7 / 16) = Inr 1 \<and>
   valid_draw (py_range 1 (4 + 1)) 1 [2] \<and> (0::int) < 1 \<and> (1::int) < int 4 \<and>
   (\<exists>train_data val_data.
           split_val_set four_engines (7 / 16) [2] = Inr (train_data, val_data) \<and>
           mset train_data + mset val_data = mset four_engines \<and>
           length train_data + length val_data = length four_engines \<and>
           unit_nr ` set val_data = set [2] \<and>
           unit_nr ` set train_data = unit_nr ` set four_engines - set [2] \<and>
           unit_nr ` set train_data \<inter> unit_nr ` set val_data = {} \<and>
           int (card (unit_nr ` set val_data)) = 1)"
proof -
  have h1: "dense four_engines" by (simp add: split_eval dense_def)
  have h2: "4 = length (groupby four_engines)" by (simp add: four_engines_groups)
  have h3: "val_count 4 (7 / 16) = Inr 1" by (rule val_count_4_seven_sixteenths)
  have h4: "valid_draw (py_range 1 (4 + 1)) 1 [2]" by (simp add: valid_draw_def split_eval)
  have h5: "(0::int) < 1" by simp
  have h6: "(1::int) < int 4" by simp
  from split_val_set_partition [OF h1 h2 h3 h4 h5 h6] h1 h2 h3 h4 h5 h6
  show ?thesis by blast
qed

text \<open>
  Claim C10 as stated fails on a train set that is not numbered \<open>1..N\<close>: three engines
  with the ids 5, 6 and 7 and \<open>val_size = 0.4\<close> give \<open>k = int(1.2000000000000002) = 1\<close>;
  the loop looks for the ids 1, 2 and 3, finds no line, and both returned frames are
  empty.
\<close>

theorem split_val_set_empty_partition_counterexample:
  "\<not> dense sparse_engines \<and> length (groupby sparse_engines) = 3 \<and>
   val_count 3 (literal (2 / 5)) = Inr 1 \<and>
   valid_draw (py_range 1 (3 + 1)) 1 [2] \<and>
   split_val_set sparse_engines (literal (2 / 5)) [2] = Inr ([], [])"
proof -
  have "\<not> dense sparse_engines" by (simp add: split_eval dense_def)
  moreover have "valid_draw (py_range 1 (3 + 1)) 1 [2]"
    by (simp add: valid_draw_def split_eval)
  ultimately show ?thesis
    using sparse_engines_groups val_count_3_two_fifths split_sparse_engines
    by (intro conjI)
qed

theorem split_val_set_no_empty_partition_witness:
  "4 = length (groupby four_engines) \<and> val_count 4 (literal (1 / 5)) = Inr 0 \<and>
   valid_draw (py_range 1 (4 + 1)) 0 [] \<and>
   split_val_set four_engines (literal (1 / 5)) [] = Inl No_objects_to_concatenate"
proof -
  have h1: "4 = length (groupby four_engines)" by (simp add: four_engines_groups)
  have h2: "val_count 4 (literal (1 / 5)) = Inr 0" by (rule val_count_4_fifth)
  have h3: "valid_draw (py_range 1 (4 + 1)) 0 []" by (simp add: valid_draw_def)
  from split_val_set_no_empty_partition [OF h1 h2, of "[]"] h3
  have "split_val_set four_engines (literal (1 / 5)) [] = Inl No_objects_to_concatenate" by blast
  with h1 h2 h3 show ?thesis by blast
qed

section \<open>Samplers: properties of the two sample methods\<close>


lemma segment_step_cases:
  assumes "segment_step data ids labels I index pick engine i st = Inr st'"
  shows "(skips ids I index engine i \<and> st' = st) \<or>
         (\<not> skips ids I index engine i \<and>
          neg_j st < length (neg_samples st) \<and> neg_j st < length (neg_labels st) \<and>
          neg_j st < length (neg_ids st) \<and>
          (\<exists>x l u. st' = \<lparr>neg_j = neg_j st + 1,
                           neg_samples = (neg_samples st)[neg_j st := Some x],
                           neg_labels = (neg_labels st)[neg_j st := Some l],
                           neg_ids = (neg_ids st)[neg_j st := Some u]\<rparr>))"
  using assms
  by (auto simp: segment_step_def skips_def Let_def split: prod.splits if_splits sum.splits)

lemma segment_step_ok:
  assumes "segment_step data ids labels I index pick engine i st = Inr st'" "slots_ok m st"
  shows "slots_ok m st'"
    and "neg_j st' = neg_j st + (if skips ids I index engine i then 0 else 1)"
proof -
  from segment_step_cases [OF assms(1)]
  show "neg_j st' = neg_j st + (if skips ids I index engine i then 0 else 1)"
    by auto
  from segment_step_cases [OF assms(1)] show "slots_ok m st'"
  proof
    assume "skips ids I index engine i \<and> st' = st"
    then show ?thesis using assms(2) by simp
  next
    assume a: "\<not> skips ids I index engine i \<and>
          neg_j st < length (neg_samples st) \<and> neg_j st < length (neg_labels st) \<and>
          neg_j st < length (neg_ids st) \<and>
          (\<exists>x l u. st' = \<lparr>neg_j = neg_j st + 1,
                           neg_samples = (neg_samples st)[neg_j st := Some x],
                           neg_labels = (neg_labels st)[neg_j st := Some l],
                           neg_ids = (neg_ids st)[neg_j st := Some u]\<rparr>)"
    then obtain x l u where st': "st' = \<lparr>neg_j = neg_j st + 1,
                           neg_samples = (neg_samples st)[neg_j st := Some x],
                           neg_labels = (neg_labels st)[neg_j st := Some l],
                           neg_ids = (neg_ids st)[neg_j st := Some u]\<rparr>"
      by blast
    from a assms(2) have jm: "neg_j st < m" by (simp add: slots_ok_def)
    show ?thesis
      using assms(2) jm unfolding slots_ok_def st'
      by (auto simp: nth_list_update)
  qed
qed

lemma segments_loop_ok:
  assumes "segments_loop data ids labels I index pick engine js st = Inr st'" "slots_ok m st"
  shows "slots_ok m st' \<and>
         neg_j st' = neg_j st + length (filter (\<lambda>i. \<not> skips ids I index engine i) js)"
  using assms
proof (induction js arbitrary: st)
  case Nil
  then show ?case by simp
next
  case (Cons i js)
  from Cons.prems(1) obtain st1 where
    s1: "segment_step data ids labels I index pick engine i st = Inr st1"
    and rest: "segments_loop data ids labels I index pick engine js st1 = Inr st'"
    by (auto split: sum.splits)
  note ok1 = segment_step_ok [OF s1 Cons.prems(2)]
  from Cons.IH [OF rest ok1(1)] ok1(2) show ?case by auto
qed

lemma sampler_engines_loop_ok:
  assumes "sampler_engines_loop data ids labels I index pick es st = Inr st'" "slots_ok m st"
  shows "slots_ok m st' \<and>
         neg_j st' = neg_j st
            + sum_list (map (\<lambda>e. length (filter (\<lambda>i. \<not> skips ids I index e i) [0 ..< I])) es)"
  using assms
proof (induction es arbitrary: st)
  case Nil
  then show ?case by simp
next
  case (Cons e es)
  from Cons.prems(1) obtain st1 where
    s1: "segments_loop data ids labels I index pick e [0 ..< I] st = Inr st1"
    and rest: "sampler_engines_loop data ids labels I index pick es st1 = Inr st'"
    by (auto split: sum.splits if_splits)
  note ok1 = segments_loop_ok [OF s1 Cons.prems(2)]
  from Cons.IH [OF rest conjunct1 [OF ok1]] ok1 show ?case by auto
qed

lemma skips_unique:
  assumes "skips ids I index engine i" "skips ids I index engine i'" "i < I" "i' < I"
  shows "i = i'"
proof -
  let ?ps = "argwhere_engine ids engine"
  let ?gap = "length ?ps div I"
  have less: False if a: "skips ids I index engine a" and b: "skips ids I index engine b"
    and ab: "a < b" and bI: "b < I" for a b
  proof -
    have "Suc a \<noteq> I" using ab bI by simp
    with a have up: "index < ?ps ! 0 + a * ?gap + ?gap"
      by (auto simp: skips_def random_range_def Let_def)
    from b have lo: "?ps ! 0 + b * ?gap \<le> index"
      by (auto simp: skips_def random_range_def Let_def split: if_splits)
    have "Suc a * ?gap \<le> b * ?gap" using ab by (intro mult_le_mono1) simp
    with up lo show False by simp
  qed
  show ?thesis
    using less [of i i'] less [of i' i] assms by (meson nat_neq_iff)
qed

lemma skips_engine: "skips ids I index engine i \<Longrightarrow> engine = ids ! index"
  by (simp add: skips_def random_range_def Let_def)

lemma filter_at_most_one:
  assumes "distinct xs" "\<And>x y. x \<in> set xs \<Longrightarrow> y \<in> set xs \<Longrightarrow> P x \<Longrightarrow> P y \<Longrightarrow> x = y"
  shows "length (filter P xs) \<le> 1"
  using assms
proof (induction xs)
  case Nil
  then show ?case by simp
next
  case (Cons x xs)
  show ?case
  proof (cases "P x")
    case True
    have "filter P xs = []"
    proof (rule ccontr)
      assume "filter P xs \<noteq> []"
      then obtain y where "y \<in> set xs" "P y"
        by (metis filter_False)
      with Cons.prems True have "x = y" by (meson list.set_intros)
      with Cons.prems(1) \<open>y \<in> set xs\<close> show False by simp
    qed
    with True show ?thesis by simp
  next
    case False
    with Cons show ?thesis by (simp add: Cons.IH)
  qed
qed

lemma filter_product:
  "length (filter (\<lambda>(e, i). P e i) (List.product es js))
     = sum_list (map (\<lambda>e. length (filter (P e) js)) es)"
  by (induction es) (simp_all add: filter_map comp_def)

lemma skips_total_le_one:
  assumes "distinct es"
  shows "length (filter (\<lambda>(e, i). skips ids I index e i) (List.product es [0 ..< I])) \<le> 1"
proof (rule filter_at_most_one)
  show "distinct (List.product es [0 ..< I])"
    using assms by (simp add: distinct_product)
next
  fix x y
  assume "x \<in> set (List.product es [0 ..< I])" "y \<in> set (List.product es [0 ..< I])"
    and px: "case x of (e, i) \<Rightarrow> skips ids I index e i"
    and py: "case y of (e, i) \<Rightarrow> skips ids I index e i"
  then obtain e i e' i' where x: "x = (e, i)" "i < I" and y: "y = (e', i')" "i' < I"
    by auto
  from px py x y have s: "skips ids I index e i" "skips ids I index e' i'" by simp_all
  then have "e = e'" using skips_engine by blast
  with s skips_unique x y show "x = y" by blast
qed

lemma nonskip_sum:
  "sum_list (map (\<lambda>e. length (filter (\<lambda>i. \<not> P e i) js)) es)
     + sum_list (map (\<lambda>e. length (filter (P e) js)) es) = length js * length es"
proof (induction es)
  case Nil
  show ?case by simp
next
  case (Cons e es)
  have "length (filter (P e) js) + length (filter (\<lambda>i. \<not> P e i) js) = length js"
    by (rule sum_length_filter_compl)
  with Cons show ?case by simp
qed

lemma sampled_engines_props:
  assumes "valid_draw (np_unique ids) (int engine_num) drawn"
    and "sampled_engines ids engine_num index drawn = Inr es"
  shows "distinct es" "length es = engine_num"
proof -
  note d = valid_draw_props [OF assms(1)]
  from assms(2) have es: "es = drawn \<or> (ids ! index \<notin> set drawn \<and> es = drawn[0 := ids ! index])"
    by (auto simp: sampled_engines_def choice_no_replace_def split: if_splits)
  then show "length es = engine_num" using d(1) by auto
  from es show "distinct es"
  proof
    assume "es = drawn" then show ?thesis using d(2) by simp
  next
    assume "ids ! index \<notin> set drawn \<and> es = drawn[0 := ids ! index]"
    then show ?thesis using d(2) by (simp add: distinct_list_update)
  qed
qed

lemma np_array_labels_filled:
  "list_all (\<lambda>s. s \<noteq> None) slots \<Longrightarrow> np_array_labels slots = map the slots"
  by (induction slots) (auto simp: np_array_labels_def)

lemma np_stack_filled:
  "list_all (\<lambda>s. s \<noteq> None) slots \<Longrightarrow> np_stack slots = Inr (map the slots)"
  by (auto simp: np_stack_def list_ex_iff list_all_iff)

text \<open>
  Claim C8, as amended. Whenever \<open>CmapssNegativeSampler.sample\<close> reaches its \<open>return\<close>
  (the engines drawn being different engines of the dataset), exactly one segment was
  skipped, the anchor engine's segment that holds \<open>index\<close>; the skip does not advance the
  write position, so no slot is set aside for the skipped segment: all
  \<open>interval_nums * engine_num\<close> slots of the sample and label lists are filled, slot 0
  with the anchor's own sample and label and the slots after it with the negatives drawn
  from the other segments. No placeholder is left, and the arrays returned are these
  lists.
\<close>

theorem negative_sample_compact:
  assumes draw: "valid_draw (np_unique ids) (int engine_num) drawn"
    and ret: "negative_sample_slots data ids labels engine_num interval_nums index drawn pick = Inr st"
  shows "length (neg_samples st) = interval_nums * engine_num \<and>
         length (neg_labels st) = interval_nums * engine_num \<and>
         list_all (\<lambda>s. s \<noteq> None) (neg_samples st) \<and>
         list_all (\<lambda>s. s \<noteq> None) (neg_labels st) \<and>
         neg_samples st ! 0 = Some (data ! index) \<and>
         neg_labels st ! 0 = Some (labels ! index) \<and>
         (\<exists>engine_ids. sampled_engines ids engine_num index drawn = Inr engine_ids \<and>
            length (filter (\<lambda>(engine, i). skips ids interval_nums index engine i)
                      (List.product engine_ids [0 ..< interval_nums])) = 1) \<and>
         negative_sample data ids labels engine_num interval_nums index drawn pick
           = Inr (map the (neg_samples st), map the (neg_labels st))"
proof -
  let ?M = "interval_nums * engine_num"
  let ?st0 = "\<lparr>neg_j = 1, neg_samples = replicate ?M None,
                neg_labels = replicate ?M None, neg_ids = replicate ?M (None :: int option)\<rparr>"
  from ret obtain es st1 where
    es: "sampled_engines ids engine_num index drawn = Inr es"
    and loop: "sampler_engines_loop data ids labels interval_nums index pick es ?st0 = Inr st1"
    and d: "index < length data" and l: "index < length labels"
    and ne: "neg_samples st1 \<noteq> []"
    and st: "st = st1\<lparr>neg_samples := (neg_samples st1)[0 := Some (data ! index)],
                       neg_labels := (neg_labels st1)[0 := Some (labels ! index)],
                       neg_ids := (neg_ids st1)[0 := Some (ids ! index)]\<rparr>"
    unfolding negative_sample_slots_def getitem_def
    by (auto split: if_splits sum.splits)
  note e = sampled_engines_props [OF draw es]
  have ok0: "slots_ok ?M ?st0" by (simp add: slots_ok_def)
  from sampler_engines_loop_ok [OF loop ok0]
  have ok1: "slots_ok ?M st1"
    and j1: "neg_j st1 = 1 + sum_list (map (\<lambda>e. length (filter (\<lambda>i. \<not> skips ids interval_nums index e i)
                                                    [0 ..< interval_nums])) es)"
    by simp_all
  let ?T = "length (filter (\<lambda>(engine, i). skips ids interval_nums index engine i)
                      (List.product es [0 ..< interval_nums]))"
  have T: "?T = sum_list (map (\<lambda>e. length (filter (skips ids interval_nums index e)
                                                    [0 ..< interval_nums])) es)"
    by (rule filter_product)
  have total: "(neg_j st1 - 1) + ?T = ?M"
    unfolding T j1
    using nonskip_sum [of "skips ids interval_nums index" "[0 ..< interval_nums]" es] e(2)
    by simp
  have len: "length (neg_samples st1) = ?M" "length (neg_labels st1) = ?M"
    using ok1 by (simp_all only: slots_ok_def)
  have "0 < length (neg_samples st1)" using ne by simp
  then have M1: "1 \<le> ?M" unfolding len by linarith
  have "neg_j st1 \<le> max 1 ?M" "1 \<le> neg_j st1"
    using ok1 by (simp_all only: slots_ok_def)
  then have jM: "neg_j st1 \<le> ?M" "1 \<le> neg_j st1" using M1 by linarith+
  have Tle: "?T \<le> 1" using e(1) by (rule skips_total_le_one)
  have T1: "?T = 1" using total jM Tle by linarith
  have jfin: "neg_j st1 = ?M" using total T1 jM by linarith
  have filled: "neg_samples st1 ! p \<noteq> None \<and> neg_labels st1 ! p \<noteq> None" if "1 \<le> p" "p < ?M" for p
    using ok1 that jfin by (simp add: slots_ok_def)
  have all_s: "list_all (\<lambda>s. s \<noteq> None) (neg_samples st)"
    unfolding list_all_length st
  proof (intro allI impI)
    fix p assume "p < length (neg_samples (st1\<lparr>neg_samples := (neg_samples st1)[0 := Some (data ! index)],
                       neg_labels := (neg_labels st1)[0 := Some (labels ! index)],
                       neg_ids := (neg_ids st1)[0 := Some (ids ! index)]\<rparr>))"
    then have p: "p < ?M" using len by simp
    show "neg_samples (st1\<lparr>neg_samples := (neg_samples st1)[0 := Some (data ! index)],
                       neg_labels := (neg_labels st1)[0 := Some (labels ! index)],
                       neg_ids := (neg_ids st1)[0 := Some (ids ! index)]\<rparr>) ! p \<noteq> None"
      using filled [of p] p len by (cases p) (simp_all add: nth_list_update)
  qed
  have all_l: "list_all (\<lambda>s. s \<noteq> None) (neg_labels st)"
    unfolding list_all_length st
  proof (intro allI impI)
    fix p assume "p < length (neg_labels (st1\<lparr>neg_samples := (neg_samples st1)[0 := Some (data ! index)],
                       neg_labels := (neg_labels st1)[0 := Some (labels ! index)],
                       neg_ids := (neg_ids st1)[0 := Some (ids ! index)]\<rparr>))"
    then have p: "p < ?M" using len by simp
    show "neg_labels (st1\<lparr>neg_samples := (neg_samples st1)[0 := Some (data ! index)],
                       neg_labels := (neg_labels st1)[0 := Some (labels ! index)],
                       neg_ids := (neg_ids st1)[0 := Some (ids ! index)]\<rparr>) ! p \<noteq> None"
      using filled [of p] p len by (cases p) (simp_all add: nth_list_update)
  qed
  have l0: "length (neg_samples st) = ?M" "length (neg_labels st) = ?M"
    using len by (simp_all add: st)
  have p0: "neg_samples st ! 0 = Some (data ! index)" "neg_labels st ! 0 = Some (labels ! index)"
    using len M1 by (simp_all add: st)
  have skip: "\<exists>engine_ids. sampled_engines ids engine_num index drawn = Inr engine_ids \<and>
            length (filter (\<lambda>(engine, i). skips ids interval_nums index engine i)
                      (List.product engine_ids [0 ..< interval_nums])) = 1"
    using es T1 by blast
  have run: "negative_sample data ids labels engine_num interval_nums index drawn pick
           = Inr (map the (neg_samples st), map the (neg_labels st))"
    by (simp add: negative_sample_def ret np_stack_filled [OF all_s] np_array_labels_filled [OF all_l])
  from l0 all_s all_l p0 skip run show ?thesis by (intro conjI)
qed

lemma replicate_numeral: "replicate (numeral k) x = x # replicate (pred_numeral k) x"
  by (simp add: numeral_eq_Suc)

text \<open>The equations that evaluate the samplers on a concrete dataset.\<close>

lemmas sampler_eval = replicate_numeral negative_sample_def negative_sample_slots_def sampled_engines_def
  choice_no_replace_def np_unique_def segment_step_def random_range_def argwhere_engine_def
  getitem_def np_stack_def np_array_labels_def skips_def valid_draw_def upt_rec Let_def
  random_negative_sample_def candidates_def squeezed_population_def

text \<open>
  Claim C8 as stated fails: one engine of two samples, two segments, \<open>index = 0\<close>.
  Segment 0 holds the index and is skipped; the negative of segment 1 is written to slot
  1, the anchor to slot 0, and both slots of the returned arrays are filled.
\<close>

theorem negative_sample_no_placeholder_counterexample:
  "valid_draw (np_unique [1, 1]) (int 1) [1] \<and>
   skips [1, 1] 2 0 1 0 \<and>
   negative_sample_slots [[[10]], [[20 :: rat]]] [1, 1] [5, 4] 1 2 0 [1] (\<lambda>_ _. 0)
     = Inr \<lparr>neg_j = 2, neg_samples = [Some [[10]], Some [[20]]],
             neg_labels = [Some 5, Some 4], neg_ids = [Some 1, Some 1]\<rparr> \<and>
   negative_sample [[[10]], [[20 :: rat]]] [1, 1] [5, 4] 1 2 0 [1] (\<lambda>_ _. 0)
     = Inr ([[[10]], [[20]]], [5, 4])"
  by (simp add: sampler_eval)

theorem negative_sample_compact_witness:
  "valid_draw (np_unique [1, 1, 1, 2, 2, 2, 2]) (int 2) [2, 1] \<and>
   negative_sample_slots [[[10]], [[20]], [[30]], [[40]], [[50]], [[60]], [[70 :: rat]]] [1, 1, 1, 2, 2, 2, 2]
       [5, 4, 3, 9, 8, 7, 6] 2 3 1 [2, 1] (\<lambda>_ _. 1)
     = Inr \<lparr>neg_j = 6,
             neg_samples = [Some [[20]], Some [[40]], Some [[50]], Some [[70]], Some [[10]],
                            Some [[30]]],
             neg_labels = [Some 4, Some 9, Some 8, Some 6, Some 5, Some 3],
             neg_ids = [Some 1, Some 2, Some 2, Some 2, Some 1, Some 1]\<rparr> \<and>
   negative_sample [[[10]], [[20]], [[30]], [[40]], [[50]], [[60]], [[70 :: rat]]] [1, 1, 1, 2, 2, 2, 2]
       [5, 4, 3, 9, 8, 7, 6] 2 3 1 [2, 1] (\<lambda>_ _. 1)
     = Inr ([[[20]], [[40]], [[50]], [[70]], [[10]], [[30]]], [4, 9, 8, 6, 5, 3])"
proof -
  have h1: "valid_draw (np_unique [1, 1, 1, 2, 2, 2, 2]) (int 2) [2, 1]"
    by (simp add: sampler_eval)
  have h2: "negative_sample_slots [[[10]], [[20]], [[30]], [[40]], [[50]], [[60]], [[70 :: rat]]] [1, 1, 1, 2, 2, 2, 2]
       [5, 4, 3, 9, 8, 7, 6] 2 3 1 [2, 1] (\<lambda>_ _. 1)
     = Inr \<lparr>neg_j = 6,
             neg_samples = [Some [[20]], Some [[40]], Some [[50]], Some [[70]], Some [[10]],
                            Some [[30]]],
             neg_labels = [Some 4, Some 9, Some 8, Some 6, Some 5, Some 3],
             neg_ids = [Some 1, Some 2, Some 2, Some 2, Some 1, Some 1]\<rparr>"
    by (simp add: sampler_eval)
  from negative_sample_compact [OF h1 h2] h1 h2 show ?thesis by simp
qed

text \<open>
  Claim C7 (fails on the code). Labels \<open>[0, 0, 0, 5]\<close>, \<open>index = 0\<close>, threshold
  \<open>0.2\<close>, \<open>neg_num = 1\<close>: the only index whose label is far enough is 3, fewer than
  \<open>neg_num + 1 = 2\<close>. The squeezed array holds the single number 3, the draw is made
  from \<open>arange(3)\<close>, and the function returns two entries instead of raising; the
  negative it returns has the anchor's own label.
\<close>

theorem random_sampler_single_candidate:
  "candidates [0, 0, 0, 5] (1 / 5) 0 = [3] \<and>
   valid_draw (squeezed_population (candidates [0, 0, 0, 5] (1 / 5) 0)) (1 + 1) [2, 1] \<and>
   random_negative_sample [[[10]], [[20]], [[30]], [[40 :: rat]]] [0, 0, 0, 5] 1 (1 / 5) 0 [2, 1]
     = Inr ([[[10]], [[20]]], [0, 0])"
  by (simp add: sampler_eval)

lemma collect_getitem:
  assumes "\<And>i. i \<in> set js \<Longrightarrow> i < length xs"
  shows "collect (getitem xs) js = Inr (map (\<lambda>i. xs ! i) js)"
  using assms by (intro collect_map) (simp add: getitem_def)

lemma squeezed_population_many: "length cs \<noteq> 1 \<Longrightarrow> squeezed_population cs = cs"
  by (auto simp: squeezed_population_def split: list.splits)

text \<open>
  Where the far-enough indices are none or at least two, the label-distance sampler does
  what is expected of it: it raises when they are fewer than \<open>neg_num + 1\<close>, and
  otherwise returns \<open>neg_num + 1\<close> entries, the anchor first, every other label further
  than the threshold from the anchor's.
\<close>

lemma random_negative_sample_too_few:
  assumes "length (candidates labels thresh index) \<noteq> 1"
    and "int (length (candidates labels thresh index)) < neg_num + 1"
  shows "\<exists>e. random_negative_sample data labels neg_num thresh index drawn = Inl e"
  using assms
  by (auto simp: random_negative_sample_def squeezed_population_many choice_no_replace_def)

lemma random_negative_sample_enough:
  assumes idx: "index < length labels" and len: "length data = length labels"
    and cs: "length (candidates labels thresh index) \<noteq> 1" and nn: "0 \<le> neg_num"
    and v: "valid_draw (candidates labels thresh index) (neg_num + 1) drawn"
  shows "\<exists>xs ls. random_negative_sample data labels neg_num thresh index drawn = Inr (xs, ls) \<and>
           length xs = nat (neg_num + 1) \<and> length ls = nat (neg_num + 1) \<and>
           xs ! 0 = data ! index \<and> ls ! 0 = labels ! index \<and>
           (\<forall>p. 1 \<le> p \<and> p < length ls \<longrightarrow> thresh < \<bar>ls ! p - labels ! index\<bar>)"
proof -
  let ?cs = "candidates labels thresh index"
  let ?ix = "drawn[0 := index]"
  note d = valid_draw_props [OF v]
  have dl: "length drawn = nat (neg_num + 1)" using d(1) by simp
  have ne: "drawn \<noteq> []" using d(1) nn by auto
  have "card (set drawn) \<le> card (set ?cs)" using d(3) by (simp add: card_mono)
  then have "length drawn \<le> length ?cs"
    using d(2) by (metis card_length distinct_card order_trans)
  then have ch: "choice_no_replace (squeezed_population ?cs) (neg_num + 1) drawn = Inr drawn"
    using d(1) nn ne by (auto simp: choice_no_replace_def squeezed_population_many [OF cs])
  have far: "i < length labels \<and> thresh < \<bar>labels ! i - labels ! index\<bar>" if "i \<in> set drawn" for i
    using that d(3) by (auto simp: candidates_def)
  have inb: "i < length labels" if "i \<in> set ?ix" for i
    using that far idx set_update_subset_insert [of drawn 0 index] by auto
  have xs: "collect (getitem data) ?ix = Inr (map (\<lambda>i. data ! i) ?ix)"
    using inb len by (intro collect_getitem) simp
  have ls: "collect (getitem labels) ?ix = Inr (map (\<lambda>i. labels ! i) ?ix)"
    using inb by (intro collect_getitem) simp
  have run: "random_negative_sample data labels neg_num thresh index drawn
               = Inr (map (\<lambda>i. data ! i) ?ix, map (\<lambda>i. labels ! i) ?ix)"
    using idx ne by (simp add: random_negative_sample_def ch xs ls Let_def)
  have negs: "thresh < \<bar>map (\<lambda>i. labels ! i) ?ix ! p - labels ! index\<bar>"
    if "1 \<le> p" "p < length (map (\<lambda>i. labels ! i) ?ix)" for p
  proof -
    have "?ix ! p = drawn ! p" using that by simp
    moreover have "drawn ! p \<in> set drawn" using that by simp
    ultimately show ?thesis using far that by simp
  qed
  have l0: "0 < length drawn" using ne by simp
  have first: "map (\<lambda>i. data ! i) ?ix ! 0 = data ! index"
    "map (\<lambda>i. labels ! i) ?ix ! 0 = labels ! index"
    using l0 by simp_all
  show ?thesis
    apply (rule exI [of _ "map (\<lambda>i. data ! i) ?ix"])
    apply (rule exI [of _ "map (\<lambda>i. labels ! i) ?ix"])
    using run dl negs first by simp
qed

section \<open>The LSTM forward pass follows the recurrence\<close>


lemma lstm_step_spec:
  "lstm_step m t (x ! t) (spec_state m b x t) = spec_state m b x (Suc t)"
  by (simp add: lstm_step_def dropout_def Let_def split: prod.splits)

lemma forward_loop_spec:
  assumes "x = pre @ rest"
  shows "forward_loop m rest (length pre) (spec_state m b x (length pre)) outputs
     = (spec_state m b x (length x),
        outputs @ map (\<lambda>t. fst (spec_state m b x (Suc t))) [length pre ..< length x])"
  using assms
proof (induction rest arbitrary: pre outputs)
  case Nil
  then show ?case by simp
next
  case (Cons x_i rest)
  have xi: "x ! length pre = x_i" using Cons.prems by simp
  have split: "x = (pre @ [x_i]) @ rest" using Cons.prems by simp
  have "length pre < length x" using Cons.prems by simp
  then have "[length pre ..< length x] = length pre # [Suc (length pre) ..< length x]"
    by (rule upt_conv_Cons)
  then show ?case
    using Cons.IH [OF split, of "outputs @ [fst (spec_state m b x (Suc (length pre)))]"]
      lstm_step_spec [of m "length pre" x b] xi
    by (simp add: Let_def)
qed

text \<open>
  Claim C9, as amended. On an input sequence of at least one step the forward pass of
  the hand-written LSTM starts from \<open>h_0 = c_0 = 0\<close>, follows the recurrence of the
  specification step by step, and returns the hidden states \<open>h_1, ..., h_l\<close> stacked along
  the time axis together with the final pair \<open>(h_l, c_l)\<close>.
\<close>

theorem forward_follows_recurrence:
  assumes "x \<noteq> []"
  shows "spec_state m b x 0 = (zeros b (hidden_size m), zeros b (hidden_size m)) \<and>
         forward m b x
           = Inr (map (\<lambda>t. fst (spec_state m b x (Suc t))) [0 ..< length x],
                  spec_state m b x (length x))"
  using assms forward_loop_spec [of x "[]" x m b "[]"]
  by (simp add: forward_def)

text \<open>
  Claim C9 as stated fails on the sequence with no step: the list of outputs is empty and
  \<open>torch.stack\<close> raises.
\<close>

theorem forward_empty_counterexample:
  "forward lstm_example 1 [] = Inl Stack_empty"
  by (simp add: forward_def)

theorem forward_follows_recurrence_witness:
  "[[[0 :: real]]] \<noteq> [] \<and>
   spec_state lstm_example 1 [[[0]]] 0
     = (zeros 1 (hidden_size lstm_example), zeros 1 (hidden_size lstm_example)) \<and>
   forward lstm_example 1 [[[0]]]
     = Inr (map (\<lambda>t. fst (spec_state lstm_example 1 [[[0]]] (Suc t))) [0 ..< length [[[0 :: real]]]],
            spec_state lstm_example 1 [[[0]]] (length [[[0 :: real]]]))"
  using forward_follows_recurrence [of "[[[0]]]" lstm_example 1] by simp


end
